theory Spec2Isabelle
  imports Complex_Main
begin

section \<open>Numbers, vectors and errors\<close>

text \<open>
  The arrays of \<^verbatim>\<open>script/set_FS_frame.py\<close> hold float64 values. The model
  takes a float to be an exact real number or \<open>None\<close>, the value numpy writes as
  \<^verbatim>\<open>nan\<close>: rounding and overflow are not modelled, the propagation of
  \<^verbatim>\<open>nan\<close> through arithmetic and the falsity of every comparison with it are.
  numpy divides by zero without raising: \<^verbatim>\<open>0/0\<close> is \<^verbatim>\<open>nan\<close>. A nonzero
  number divided by zero would be an infinity; every divisor of the functions below is
  the Euclidean norm of the row it divides, the last of a running sum of norms, or a
  row count, so the dividend is zero whenever a finite divisor is, and the model gives
  \<open>None\<close> to every division by zero. In float64 the square of a component below
  about \<open>1e-162\<close> underflows to zero and that of one above about \<open>1e154\<close>
  overflows, so a norm can be zero or infinite where the real number is not: the
  properties below that need a nonzero, finite norm are stated for norms of at least
  \<open>1e-150\<close> and rows of bounded components, and the equalities between
  real numbers hold of the float64 values up to rounding.
\<close>

type_synonym fl = "real option"

fun fadd :: "fl \<Rightarrow> fl \<Rightarrow> fl" where
  "fadd (Some x) (Some y) = Some (x + y)"
| "fadd _ _ = None"

fun fsub :: "fl \<Rightarrow> fl \<Rightarrow> fl" where
  "fsub (Some x) (Some y) = Some (x - y)"
| "fsub _ _ = None"

fun fmul :: "fl \<Rightarrow> fl \<Rightarrow> fl" where
  "fmul (Some x) (Some y) = Some (x * y)"
| "fmul _ _ = None"

fun fdiv :: "fl \<Rightarrow> fl \<Rightarrow> fl" where
  "fdiv (Some x) (Some y) = (if y = 0 then None else Some (x / y))"
| "fdiv _ _ = None"

fun fneg :: "fl \<Rightarrow> fl" where
  "fneg (Some x) = Some (- x)"
| "fneg None = None"


fun fsqrt :: "fl \<Rightarrow> fl" where
  "fsqrt (Some x) = (if x < 0 then None else Some (sqrt x))"
| "fsqrt None = None"

fun flt :: "fl \<Rightarrow> fl \<Rightarrow> bool" where
  "flt (Some x) (Some y) = (x < y)"
| "flt _ _ = False"

text \<open>A row of an \<open>(n, 3)\<close> array; an array is the list of its rows.\<close>

type_synonym vec = "fl \<times> fl \<times> fl"

definition vec_of :: "real \<Rightarrow> real \<Rightarrow> real \<Rightarrow> vec" where
  "vec_of x y z = (Some x, Some y, Some z)"

definition zero_vec :: vec where
  "zero_vec = (Some 0, Some 0, Some 0)"

definition nan_vec :: vec where
  "nan_vec = (None, None, None)"

text \<open>The columns \<^verbatim>\<open>a[:, 0]\<close>, \<^verbatim>\<open>a[:, 1]\<close>, \<^verbatim>\<open>a[:, 2]\<close> of a row.\<close>

fun vx :: "vec \<Rightarrow> fl" where
  "vx (a, b, c) = a"

fun vy :: "vec \<Rightarrow> fl" where
  "vy (a, b, c) = b"

fun vz :: "vec \<Rightarrow> fl" where
  "vz (a, b, c) = c"

fun finite_vec :: "vec \<Rightarrow> bool" where
  "finite_vec (a, b, c) = (a \<noteq> None \<and> b \<noteq> None \<and> c \<noteq> None)"

fun vadd :: "vec \<Rightarrow> vec \<Rightarrow> vec" where
  "vadd (a, b, c) (d, e, f) = (fadd a d, fadd b e, fadd c f)"

fun vsub :: "vec \<Rightarrow> vec \<Rightarrow> vec" where
  "vsub (a, b, c) (d, e, f) = (fsub a d, fsub b e, fsub c f)"

text \<open>\<^verbatim>\<open>s * v\<close> and \<^verbatim>\<open>v / s\<close> for a scalar \<open>s\<close>.\<close>

fun smul :: "fl \<Rightarrow> vec \<Rightarrow> vec" where
  "smul s (a, b, c) = (fmul s a, fmul s b, fmul s c)"

fun vdivs :: "vec \<Rightarrow> fl \<Rightarrow> vec" where
  "vdivs (a, b, c) s = (fdiv a s, fdiv b s, fdiv c s)"

text \<open>\<^verbatim>\<open>np.dot\<close>, \<^verbatim>\<open>np.cross\<close> and \<^verbatim>\<open>np.linalg.norm\<close> on rows.\<close>

fun dot :: "vec \<Rightarrow> vec \<Rightarrow> fl" where
  "dot (a, b, c) (d, e, f) = fadd (fadd (fmul a d) (fmul b e)) (fmul c f)"

fun cross :: "vec \<Rightarrow> vec \<Rightarrow> vec" where
  "cross (a, b, c) (d, e, f) =
     (fsub (fmul b f) (fmul c e), fsub (fmul c d) (fmul a f), fsub (fmul a e) (fmul b d))"

definition vnorm :: "vec \<Rightarrow> fl" where
  "vnorm v = fsqrt (dot v v)"

text \<open>
  \<^verbatim>\<open>a / np.linalg.norm(a, axis=1)[:, np.newaxis]\<close>: every row divided by its own
  norm.
\<close>

definition normalize :: "vec \<Rightarrow> vec" where
  "normalize v = vdivs v (vnorm v)"

definition normalize_rows :: "vec list \<Rightarrow> vec list" where
  "normalize_rows vs = map normalize vs"

text \<open>The exceptions the functions can raise, all from numpy and scipy.\<close>

datatype error = ValueError | IndexError

section \<open>smooth_vectors\<close>

text \<open>
  \<^verbatim>\<open>np.pad(a, ((k, k), (0, 0)), mode='edge')\<close> returns a new array: \<open>k\<close> copies of
  the first row, the rows, \<open>k\<close> copies of the last row. It raises ValueError on an
  array with no row when \<open>k > 0\<close>.
\<close>

definition np_pad_edge :: "nat \<Rightarrow> vec list \<Rightarrow> error + vec list" where
  "np_pad_edge k vs =
     (if vs = [] then (if k = 0 then Inr [] else Inl ValueError)
      else Inr (replicate k (hd vs) @ vs @ replicate k (last vs)))"

text \<open>
  \<^verbatim>\<open>np.mean(rows, axis=0)\<close>: the sum of the rows, column by column, divided by
  their number; of no row it is \<^verbatim>\<open>nan\<close> in every column.
\<close>

definition vsum :: "vec list \<Rightarrow> vec" where
  "vsum rows = foldl vadd zero_vec rows"

definition np_mean :: "vec list \<Rightarrow> vec" where
  "np_mean rows = vdivs (vsum rows) (Some (real (length rows)))"

text \<open>The slice \<^verbatim>\<open>padded_vectors[i:i + window_size]\<close>.\<close>

definition window :: "vec list \<Rightarrow> nat \<Rightarrow> nat \<Rightarrow> vec list" where
  "window padded w i = take w (drop i padded)"

text \<open>
  The loop of lines 14-15 writes into \<open>smoothed_vectors\<close> row by row, in the order
  of the indices, reading the padded array.
\<close>

fun smooth_loop :: "vec list \<Rightarrow> nat \<Rightarrow> nat list \<Rightarrow> vec list \<Rightarrow> vec list" where
  "smooth_loop padded w [] sv = sv"
| "smooth_loop padded w (i # js) sv =
     smooth_loop padded w js (sv[i := np_mean (window padded w i)])"

text \<open>
  One pass, lines 10-19. \<^verbatim>\<open>np.pad\<close> raises ValueError on a negative pad width,
  which \<^verbatim>\<open>window_size // 2\<close> is exactly when the window size is negative.
\<close>

definition smooth_pass :: "int \<Rightarrow> vec list \<Rightarrow> error + vec list" where
  "smooth_pass window_size smoothed_vectors =
     (if window_size div 2 < 0 then Inl ValueError
      else case np_pad_edge (nat (window_size div 2)) smoothed_vectors of
        Inl e \<Rightarrow> Inl e
      | Inr padded_vectors \<Rightarrow>
          Inr (normalize_rows
                (smooth_loop padded_vectors (nat window_size)
                   [0..<length smoothed_vectors] smoothed_vectors)))"

fun smooth_passes :: "nat \<Rightarrow> int \<Rightarrow> vec list \<Rightarrow> error + vec list" where
  "smooth_passes 0 window_size sv = Inr sv"
| "smooth_passes (Suc k) window_size sv =
     (case smooth_pass window_size sv of
        Inl e \<Rightarrow> Inl e
      | Inr sv' \<Rightarrow> smooth_passes k window_size sv')"

text \<open>\<^verbatim>\<open>range(passes)\<close> is empty when \<open>passes\<close> is negative.\<close>

definition smooth_vectors :: "vec list \<Rightarrow> int \<Rightarrow> int \<Rightarrow> error + vec list" where
  "smooth_vectors vectors window_size passes = smooth_passes (nat passes) window_size vectors"

text \<open>The callers of this file pass neither argument: window size 10, one pass.\<close>

definition smooth_vectors_default :: "vec list \<Rightarrow> error + vec list" where
  "smooth_vectors_default vectors = smooth_vectors vectors 10 1"

text \<open>The batch form of a pass: every row computed from the padded copy alone.\<close>

definition batch_means :: "vec list \<Rightarrow> nat \<Rightarrow> nat \<Rightarrow> vec list" where
  "batch_means padded w n = map (\<lambda>i. np_mean (window padded w i)) [0..<n]"

text \<open>
  The smoothing as the specification words it, written on the components of the
  vectors and without the functions above. The mean of a sequence of vectors has in each
  column the sum of the column divided by the number of vectors; a vector is renormalized
  by dividing each component by the square root of the sum of the squares of the three.
  In each pass the sequence is padded at both ends by edge replication of length
  \<open>w div 2\<close>, the vector at index \<open>i\<close> is replaced by the mean of the window of \<open>w\<close>
  vectors of the padded sequence that starts at index \<open>i\<close>, and every vector is
  renormalized; \<open>p\<close> passes.
\<close>

definition fsum :: "fl list \<Rightarrow> fl" where
  "fsum xs = foldl fadd (Some 0) xs"

definition spec_mean :: "vec list \<Rightarrow> vec" where
  "spec_mean rows =
     (fdiv (fsum (map vx rows)) (Some (real (length rows))),
      fdiv (fsum (map vy rows)) (Some (real (length rows))),
      fdiv (fsum (map vz rows)) (Some (real (length rows))))"

fun spec_unit :: "vec \<Rightarrow> vec" where
  "spec_unit (x, y, z) =
     (let n = fsqrt (fadd (fadd (fmul x x) (fmul y y)) (fmul z z))
      in (fdiv x n, fdiv y n, fdiv z n))"

definition spec_pad :: "nat \<Rightarrow> vec list \<Rightarrow> vec list" where
  "spec_pad k vs = replicate k (hd vs) @ vs @ replicate k (last vs)"

definition spec_pass :: "nat \<Rightarrow> vec list \<Rightarrow> vec list" where
  "spec_pass w vs =
     map (\<lambda>i. spec_unit (spec_mean (take w (drop i (spec_pad (w div 2) vs))))) [0..<length vs]"

definition spec_smooth :: "nat \<Rightarrow> nat \<Rightarrow> vec list \<Rightarrow> vec list" where
  "spec_smooth w p vs = (spec_pass w ^^ p) vs"

section \<open>interpolate_line\<close>

text \<open>\<^verbatim>\<open>np.diff(a, axis=0)\<close>: row \<open>i + 1\<close> minus row \<open>i\<close>.\<close>

definition np_diff :: "vec list \<Rightarrow> vec list" where
  "np_diff vs = map2 (\<lambda>a b. vsub b a) vs (tl vs)"

text \<open>\<^verbatim>\<open>np.cumsum\<close>: the running sums.\<close>

fun cumsum_from :: "fl \<Rightarrow> fl list \<Rightarrow> fl list" where
  "cumsum_from acc [] = []"
| "cumsum_from acc (x # xs) = fadd acc x # cumsum_from (fadd acc x) xs"

definition np_cumsum :: "fl list \<Rightarrow> fl list" where
  "np_cumsum xs = cumsum_from (Some 0) xs"

text \<open>
  \<^verbatim>\<open>np.linspace(0, 1, num)\<close>: ValueError on a negative number of samples, no
  sample for 0, the sample 0 for 1, and otherwise \<open>i * step\<close> for \<open>i < num\<close> with
  \<open>step = 1 / (num - 1)\<close>.
\<close>

definition np_linspace01 :: "int \<Rightarrow> error + real list" where
  "np_linspace01 num =
     (if num < 0 then Inl ValueError
      else if num = 1 then Inr [0]
      else Inr (map (\<lambda>i. real i * (1 / real (nat num - 1))) [0..<nat num]))"

text \<open>
  \<^verbatim>\<open>scipy.interpolate.CubicSpline(x, y)\<close> is not code of this repository. Its
  constructor raises ValueError unless \<open>x\<close> has at least two elements, \<open>y\<close> as many,
  both hold finite values only and \<open>x\<close> is strictly increasing. The spline it returns
  is a parameter \<open>interp\<close> of the model: \<open>interp xs ys t\<close> is the value at \<open>t\<close> of the
  spline through the knots \<open>xs\<close> with the values \<open>ys\<close>. A cubic spline passes through
  its data (\<open>interpolates\<close>, for at least two strictly increasing knots), which is all
  the properties below ask of it.
\<close>

type_synonym interpolant = "real list \<Rightarrow> real list \<Rightarrow> real \<Rightarrow> real"

definition interpolates :: "interpolant \<Rightarrow> bool" where
  "interpolates interp =
     (\<forall>xs ys i. 2 \<le> length xs \<and> sorted_wrt (<) xs \<and> length ys = length xs
          \<and> i < length xs
        \<longrightarrow> interp xs ys (xs ! i) = ys ! i)"

definition CubicSpline :: "interpolant \<Rightarrow> fl list \<Rightarrow> fl list \<Rightarrow> error + (real \<Rightarrow> real)" where
  "CubicSpline interp x y =
     (if length x < 2 \<or> length y \<noteq> length x \<or> None \<in> set x \<or> None \<in> set y
         \<or> \<not> sorted_wrt (<) (map the x)
      then Inl ValueError
      else Inr (interp (map the x) (map the y)))"

text \<open>The cumulative chordal distance of line 32 and its normalization of line 34.\<close>

definition distance :: "vec list \<Rightarrow> fl list" where
  "distance points = np_cumsum (Some 0 # map vnorm (np_diff points))"

definition distance_normalized :: "vec list \<Rightarrow> fl list" where
  "distance_normalized points = map (\<lambda>d. fdiv d (last (distance points))) (distance points)"

definition interpolate_line ::
  "interpolant \<Rightarrow> vec list \<Rightarrow> int option \<Rightarrow> error + vec list" where
  "interpolate_line interp points num_points =
     (let num = (case num_points of None \<Rightarrow> int (length points) | Some k \<Rightarrow> k)
      in case CubicSpline interp (distance_normalized points) (map vx points) of
           Inl e \<Rightarrow> Inl e
         | Inr spline_x \<Rightarrow>
        (case CubicSpline interp (distance_normalized points) (map vy points) of
           Inl e \<Rightarrow> Inl e
         | Inr spline_y \<Rightarrow>
        (case CubicSpline interp (distance_normalized points) (map vz points) of
           Inl e \<Rightarrow> Inl e
         | Inr spline_z \<Rightarrow>
        (case np_linspace01 num of
           Inl e \<Rightarrow> Inl e
         | Inr interpolated_distance \<Rightarrow>
             Inr (map (\<lambda>t. vec_of (spline_x t) (spline_y t) (spline_z t))
                    interpolated_distance)))))"

text \<open>
  An interpolant to run the model on: the polygon through the data. On two knots the
  cubic spline of scipy is this straight line.
\<close>

fun linear_interp :: interpolant where
  "linear_interp (x0 # x1 # xs) (y0 # y1 # ys) t =
     (if t \<le> x1 \<or> xs = [] then y0 + (t - x0) * ((y1 - y0) / (x1 - x0))
      else linear_interp (x1 # xs) (y1 # ys) t)"
| "linear_interp xs ys t = 0"

section \<open>compute_tangent_vectors\<close>

text \<open>
  Lines 52-56, the tangents before the smoothing of line 57. \<^verbatim>\<open>tangents[-1]\<close>
  raises IndexError when there is no difference, that is on fewer than two points.
\<close>

definition tangent_differences :: "vec list \<Rightarrow> error + vec list" where
  "tangent_differences interpolated_points =
     (let tangents = np_diff interpolated_points
      in if tangents = [] then Inl IndexError else Inr (tangents @ [last tangents]))"

definition normalized_tangents :: "vec list \<Rightarrow> error + vec list" where
  "normalized_tangents interpolated_points =
     (case tangent_differences interpolated_points of
        Inl e \<Rightarrow> Inl e
      | Inr tangents \<Rightarrow> Inr (normalize_rows tangents))"

definition compute_tangent_vectors :: "vec list \<Rightarrow> error + vec list" where
  "compute_tangent_vectors interpolated_points =
     (case normalized_tangents interpolated_points of
        Inl e \<Rightarrow> Inl e
      | Inr tangents \<Rightarrow> smooth_vectors_default tangents)"

section \<open>compute_MRF\<close>

text \<open>Line 66: \<^verbatim>\<open>np.array([tangents[0][1], -tangents[0][0], 0])\<close>.\<close>

definition first_normal :: "vec \<Rightarrow> vec" where
  "first_normal t = (vy t, fneg (vx t), Some 0)"

text \<open>
  Lines 61-70: both arrays start as zeros; row 0 of the normals is written, divided by
  its norm in place, and row 0 of the binormals is the cross product.
\<close>

definition mrf_init :: "vec list \<Rightarrow> vec list \<times> vec list" where
  "mrf_init tangents =
     (let zeros = replicate (length tangents) zero_vec;
          n0 = zeros[0 := first_normal (tangents ! 0)];
          n1 = n0[0 := vdivs (n0 ! 0) (vnorm (n0 ! 0))];
          b1 = zeros[0 := cross (tangents ! 0) (n1 ! 0)]
      in (n1, b1))"

text \<open>Lines 73-79: the propagation loop, writing row \<open>i\<close> of both arrays.\<close>

fun mrf_loop :: "vec list \<Rightarrow> nat list \<Rightarrow> vec list \<times> vec list \<Rightarrow> vec list \<times> vec list" where
  "mrf_loop tangents [] s = s"
| "mrf_loop tangents (i # js) (normals, binormals) =
     (let n1 = normals[i := vsub (normals ! (i - 1))
                              (smul (dot (normals ! (i - 1)) (tangents ! i)) (tangents ! i))];
          n2 = n1[i := vdivs (n1 ! i) (vnorm (n1 ! i))];
          b1 = binormals[i := cross (tangents ! i) (n2 ! i)]
      in mrf_loop tangents js (n2, b1))"

text \<open>
  The frames before the smoothing of lines 81-82. \<^verbatim>\<open>tangents[0]\<close> raises
  IndexError on an array with no row.
\<close>

definition mrf_frames :: "vec list \<Rightarrow> error + vec list \<times> vec list" where
  "mrf_frames tangents =
     (if tangents = [] then Inl IndexError
      else Inr (mrf_loop tangents [1..<length tangents] (mrf_init tangents)))"

definition compute_MRF :: "vec list \<Rightarrow> error + vec list \<times> vec list" where
  "compute_MRF tangents =
     (case mrf_frames tangents of
        Inl e \<Rightarrow> Inl e
      | Inr (normals, binormals) \<Rightarrow>
     (case smooth_vectors_default normals of
        Inl e \<Rightarrow> Inl e
      | Inr normals' \<Rightarrow>
     (case smooth_vectors_default binormals of
        Inl e \<Rightarrow> Inl e
      | Inr binormals' \<Rightarrow> Inr (normals', binormals'))))"


text \<open>
  The propagation step as the specification words it, on the components: the previous
  normal \<open>m\<close> minus its component \<open>(m \<cdot> t) t\<close> along the tangent \<open>t\<close>, and the cross
  product of the tangent and the normal.
\<close>

fun spec_project :: "vec \<Rightarrow> vec \<Rightarrow> vec" where
  "spec_project (m1, m2, m3) (t1, t2, t3) =
     (let k = fadd (fadd (fmul m1 t1) (fmul m2 t2)) (fmul m3 t3)
      in (fsub m1 (fmul k t1), fsub m2 (fmul k t2), fsub m3 (fmul k t3)))"

fun spec_cross :: "vec \<Rightarrow> vec \<Rightarrow> vec" where
  "spec_cross (t1, t2, t3) (n1, n2, n3) =
     (fsub (fmul t2 n3) (fmul t3 n2), fsub (fmul t3 n1) (fmul t1 n3),
      fsub (fmul t1 n2) (fmul t2 n1))"

section \<open>compute_normal_vectors\<close>

text \<open>
  Lines 88-100, before the smoothing of line 102: the rows whose norm is below
  \<open>1e-6\<close> are set to \<^verbatim>\<open>nan\<close>, every row is divided by its norm, and the
  marked rows are set to zero. A comparison with \<^verbatim>\<open>nan\<close> is false, so a row
  with a \<^verbatim>\<open>nan\<close> norm is not marked.
\<close>

definition normal_differences :: "vec list \<Rightarrow> error + vec list" where
  "normal_differences tangents =
     (let normals = np_diff tangents
      in if normals = [] then Inl IndexError else Inr (normals @ [last normals]))"

definition guarded_normalize_rows :: "vec list \<Rightarrow> vec list" where
  "guarded_normalize_rows normals =
     (let norms = map vnorm normals;
          zeros = map (\<lambda>s. flt s (Some (1 / 10 ^ 6))) norms;
          a1 = map2 (\<lambda>z v. if z then nan_vec else v) zeros normals;
          a2 = map2 vdivs a1 norms;
          a3 = map2 (\<lambda>z v. if z then zero_vec else v) zeros a2
      in a3)"

definition compute_normal_vectors :: "vec list \<Rightarrow> error + vec list" where
  "compute_normal_vectors tangents =
     (case normal_differences tangents of
        Inl e \<Rightarrow> Inl e
      | Inr normals \<Rightarrow> smooth_vectors_default (guarded_normalize_rows normals))"

section \<open>The pipeline of draw_FS_frames\<close>

text \<open>Lines 122-132: resampling, tangent estimation, frame propagation.\<close>

definition frames_of_line ::
  "interpolant \<Rightarrow> vec list \<Rightarrow> error + vec list \<times> vec list \<times> vec list \<times> vec list" where
  "frames_of_line interp points =
     (case interpolate_line interp points None of
        Inl e \<Rightarrow> Inl e
      | Inr interpolated_points \<Rightarrow>
     (case compute_tangent_vectors interpolated_points of
        Inl e \<Rightarrow> Inl e
      | Inr tangents \<Rightarrow>
     (case compute_MRF tangents of
        Inl e \<Rightarrow> Inl e
      | Inr (normals, binormals) \<Rightarrow>
          Inr (interpolated_points, tangents, normals, binormals))))"

text \<open>
  The curve of the scenario: 11 points evenly spaced on the segment from \<open>(0,0,0)\<close> to
  \<open>(10,0,0)\<close>.
\<close>

definition straight_line_11 :: "vec list" where
  "straight_line_11 = map (\<lambda>i. vec_of (real i) 0 0) [0..<11]"

section \<open>Predicates of the properties\<close>

definition unit_vec :: "vec \<Rightarrow> bool" where
  "unit_vec v = (vnorm v = Some 1)"



text \<open>
  A finite row whose components are at most \<open>B\<close> in absolute value. The bounds of the
  properties below keep the squares and sums of the norms away from the underflow and
  the overflow of float64, which the real numbers of the model do not have.
\<close>

fun bounded_vec :: "real \<Rightarrow> vec \<Rightarrow> bool" where
  "bounded_vec B (Some x, Some y, Some z) = (\<bar>x\<bar> \<le> B \<and> \<bar>y\<bar> \<le> B \<and> \<bar>z\<bar> \<le> B)"
| "bounded_vec B v = False"

definition tiny :: real where
  "tiny = 1 / 10 ^ 150"

definition huge :: real where
  "huge = 10 ^ 150"


text \<open>No two consecutive points coincide.\<close>

fun distinct_adjacent :: "vec list \<Rightarrow> bool" where
  "distinct_adjacent (p # q # ps) = (p \<noteq> q \<and> distinct_adjacent (q # ps))"
| "distinct_adjacent ps = True"

section \<open>Properties of smooth_vectors\<close>

lemma length_smooth_loop: "length (smooth_loop padded w js sv) = length sv"
  by (induction js arbitrary: sv) simp_all

lemma nth_smooth_loop_other:
  "k \<notin> set js \<Longrightarrow> smooth_loop padded w js sv ! k = sv ! k"
  by (induction js arbitrary: sv) simp_all

lemma nth_smooth_loop_written:
  "k \<in> set js \<Longrightarrow> k < length sv \<Longrightarrow>
   smooth_loop padded w js sv ! k = np_mean (window padded w k)"
proof (induction js arbitrary: sv)
  case Nil
  then show ?case by simp
next
  case (Cons j js)
  show ?case
  proof (cases "k \<in> set js")
    case True
    with Cons show ?thesis by simp
  next
    case False
    with Cons.prems have "k = j" by simp
    with False Cons.prems show ?thesis
      by (simp add: nth_smooth_loop_other)
  qed
qed

lemma smooth_loop_batch:
  "smooth_loop padded w [0..<length sv] sv = batch_means padded w (length sv)"
  by (rule nth_equalityI)
     (simp_all add: length_smooth_loop batch_means_def nth_smooth_loop_written)

text \<open>
  C10. In a pass the padded array is built from the vectors of the previous pass
  before any row is written, and every window mean reads that copy only: the loop
  that writes row after row in place computes the batch map of the window means over
  the values before the pass (the right-hand side takes nothing of the array written
  into but its number of rows), and a pass is that map followed by the normalization.
\<close>

theorem smooth_pass_is_batch_map:
  "smooth_loop padded w [0..<length sv] sv = batch_means padded w (length sv)
   \<and> smooth_pass window_size sv =
      (if window_size < 0 then Inl ValueError
       else case np_pad_edge (nat (window_size div 2)) sv of
              Inl e \<Rightarrow> Inl e
            | Inr padded_vectors \<Rightarrow>
                Inr (normalize_rows (batch_means padded_vectors (nat window_size) (length sv))))"
proof -
  have "(window_size div 2 < 0) = (window_size < 0)"
    by presburger
  then show ?thesis
    by (simp add: smooth_pass_def smooth_loop_batch split: sum.splits)
qed

subsection \<open>Evaluation on concrete arrays\<close>

lemma sqrt25: "sqrt 25 = 5"
  using real_sqrt_abs2 [of 5] by simp

lemma upt2: "[0..<2] = [0, 1]" by (simp add: upt_rec)

lemma upt3: "[0..<3] = [0, 1, 2]" by (simp add: upt_rec)

lemma sqrt9: "sqrt 9 = 3"
  using real_sqrt_abs2 [of 3] by simp

lemma sqrt_25_4: "sqrt (25 / 4) = 5 / 2"
  by (simp add: real_sqrt_divide sqrt25)

lemmas smooth_eval =
  smooth_vectors_def smooth_pass_def np_pad_edge_def window_def np_mean_def vsum_def
  normalize_rows_def normalize_def vnorm_def vec_of_def zero_vec_def nan_vec_def

subsection \<open>The passes as the specification words them\<close>

lemma foldl_vadd_columns:
  "foldl vadd (a, b, c) rows =
     (foldl fadd a (map vx rows), foldl fadd b (map vy rows), foldl fadd c (map vz rows))"
proof (induction rows arbitrary: a b c)
  case Nil
  then show ?case by simp
next
  case (Cons r rows)
  obtain d e f where r: "r = (d, e, f)" by (cases r)
  show ?case by (simp add: r Cons.IH)
qed

lemma np_mean_spec: "np_mean rows = spec_mean rows"
  by (simp add: np_mean_def vsum_def zero_vec_def foldl_vadd_columns spec_mean_def fsum_def)

lemma normalize_spec: "normalize v = spec_unit v"
  by (cases v) (simp add: normalize_def vnorm_def Let_def)

lemma spec_pass_model:
  "spec_pass w vs =
     map (\<lambda>i. normalize (np_mean (take w (drop i (spec_pad (w div 2) vs))))) [0..<length vs]"
  by (simp add: spec_pass_def np_mean_spec normalize_spec)

lemma length_spec_pass: "length (spec_pass w vs) = length vs"
  by (simp add: spec_pass_def)

lemma smooth_pass_spec:
  assumes "0 \<le> w" and "vs \<noteq> []"
  shows "smooth_pass w vs = Inr (spec_pass (nat w) vs)"
proof -
  from assms(1) have "\<not> w div 2 < 0" by presburger
  moreover have "nat (w div 2) = nat w div 2"
    using assms(1) by (simp add: nat_div_distrib)
  ultimately show ?thesis
    using assms(2)
    by (simp add: smooth_pass_def np_pad_edge_def smooth_loop_batch batch_means_def
        window_def spec_pass_model spec_pad_def normalize_rows_def)
qed

lemma smooth_passes_spec:
  "0 \<le> w \<Longrightarrow> vs \<noteq> [] \<Longrightarrow> smooth_passes k w vs = Inr ((spec_pass (nat w) ^^ k) vs)"
proof (induction k arbitrary: vs)
  case 0
  then show ?case by simp
next
  case (Suc k)
  have ne: "spec_pass (nat w) vs \<noteq> []"
    using Suc.prems(2) length_spec_pass [of "nat w" vs] by (metis length_0_conv)
  show ?case
    using Suc.prems Suc.IH [OF Suc.prems(1) ne]
    by (simp add: smooth_pass_spec funpow_swap1)
qed

lemma smooth_pass_negative: "w < 0 \<Longrightarrow> smooth_pass w vs = Inl ValueError"
proof -
  assume "w < 0"
  then have "w div 2 < 0" by presburger
  then show ?thesis by (simp add: smooth_pass_def)
qed

lemma smooth_pass_empty:
  "0 \<le> w \<Longrightarrow> smooth_pass w [] = (if 2 \<le> w then Inl ValueError else Inr [])"
proof -
  assume w: "0 \<le> w"
  then have a: "\<not> w div 2 < 0" by presburger
  have "(w div 2 \<le> 0) = (\<not> 2 \<le> w)" using w by presburger
  then have b: "(nat (w div 2) = 0) = (\<not> 2 \<le> w)" by simp
  show ?thesis using a b
    by (simp add: smooth_pass_def np_pad_edge_def normalize_rows_def)
qed

lemma spec_pass_empty: "spec_pass w [] = []"
  by (simp add: spec_pass_def)

lemma spec_smooth_empty: "(spec_pass w ^^ k) [] = []"
  by (induction k) (simp_all add: spec_pass_empty)

lemma smooth_passes_empty:
  "0 \<le> w \<Longrightarrow> smooth_passes k w [] = (if 1 \<le> k \<and> 2 \<le> w then Inl ValueError else Inr [])"
  by (induction k) (simp_all add: smooth_pass_empty)

lemma smooth_passes_negative:
  "w < 0 \<Longrightarrow> smooth_passes k w vs = (if 1 \<le> k then Inl ValueError else Inr vs)"
  by (cases k) (simp_all add: smooth_pass_negative)

text \<open>
  C5, amended. For every sequence of vectors, window size \<open>w\<close> and pass count \<open>p\<close>:
  with at least one pass, a negative window size, or an empty sequence with a window size
  of 2 or more, makes the padding raise ValueError; in every other case smooth_vectors
  returns what the specification describes: \<open>p\<close> passes (none when \<open>p\<close> is negative),
  each of which pads the sequence at both ends by edge replication of length \<open>w div 2\<close>,
  replaces the vector at index \<open>i\<close> by the mean of the window of size \<open>w\<close> of the padded
  sequence that starts at the padded index \<open>i\<close> (a forward window), and renormalizes every
  vector.
\<close>

theorem smooth_vectors_refines_spec:
  "smooth_vectors vs w p =
     (if 1 \<le> p \<and> (w < 0 \<or> (vs = [] \<and> 2 \<le> w)) then Inl ValueError
      else Inr (spec_smooth (nat w) (nat p) vs))"
proof (cases "w < 0")
  case True
  have "(1 \<le> nat p) = (1 \<le> p)" by linarith
  then show ?thesis
    using True by (simp add: smooth_vectors_def smooth_passes_negative spec_smooth_def)
next
  case False
  then have w: "0 \<le> w" by simp
  show ?thesis
  proof (cases "vs = []")
    case True
    have "(1 \<le> nat p) = (1 \<le> p)" by linarith
    then show ?thesis
      using True w False
      by (simp add: smooth_vectors_def smooth_passes_empty spec_smooth_def spec_smooth_empty)
  next
    case ne: False
    then show ?thesis
      using w False by (simp add: smooth_vectors_def spec_smooth_def smooth_passes_spec)
  qed
qed

text \<open>
  Three different rows and a window of 2: the window of row 1 holds the rows 0 and 1, that
  of row 2 the rows 1 and 2.
\<close>

theorem smooth_vectors_refines_spec_witness:
  "smooth_vectors [vec_of 3 0 0, vec_of 0 4 0, vec_of 0 0 3] 2 1
     = Inr (spec_smooth 2 1 [vec_of 3 0 0, vec_of 0 4 0, vec_of 0 0 3])
   \<and> spec_smooth 2 1 [vec_of 3 0 0, vec_of 0 4 0, vec_of 0 0 3]
     = [vec_of 1 0 0, vec_of (3 / 5) (4 / 5) 0, vec_of 0 (4 / 5) (3 / 5)]"
proof -
  let ?V = "[vec_of 3 0 0, vec_of 0 4 0, vec_of 0 0 3]"
  have "spec_smooth 2 1 ?V = [vec_of 1 0 0, vec_of (3 / 5) (4 / 5) 0, vec_of 0 (4 / 5) (3 / 5)]"
    by (simp add: spec_smooth_def spec_pass_def spec_pad_def spec_mean_def fsum_def vec_of_def
        upt3 numeral_2_eq_2 sqrt9 sqrt_25_4)
  then show ?thesis
    using smooth_vectors_refines_spec [of ?V 2 1] by simp
qed

text \<open>
  The claim as stated, for every sequence and window size, fails where the padding
  raises: on the empty sequence with the default window, and on a negative window size.
\<close>

theorem smooth_vectors_raises_counterexample:
  "smooth_vectors [] 10 1 = Inl ValueError
   \<and> smooth_vectors [vec_of 1 0 0] (- 1) 1 = Inl ValueError"
  by (simp add: smooth_vectors_def smooth_pass_def np_pad_edge_def)


subsection \<open>Length and norms of the output\<close>

lemma normalize_nan_or_unit: "normalize v = nan_vec \<or> unit_vec (normalize v)"
proof (cases v)
  case (fields a b c)
  show ?thesis
  proof (cases "finite_vec v")
    case False
    with fields show ?thesis
      by (cases a; cases b; cases c) (simp_all add: normalize_def vnorm_def nan_vec_def)
  next
    case True
    with fields obtain x y z where v: "v = (Some x, Some y, Some z)"
      by (cases a; cases b; cases c) simp_all
    define s where "s = sqrt (x * x + y * y + z * z)"
    have nn: "0 \<le> x * x + y * y + z * z" by simp
    show ?thesis
    proof (cases "s = 0")
      case True
      with v nn show ?thesis
        by (simp add: normalize_def vnorm_def nan_vec_def s_def not_less)
    next
      case False
      have s2: "s * s = x * x + y * y + z * z"
        using nn by (simp add: s_def)
      have ss: "s * s \<noteq> 0" using False by simp
      have "x / s * (x / s) + y / s * (y / s) + z / s * (z / s) = (x * x + y * y + z * z) / (s * s)"
        by (simp add: add_divide_distrib)
      also have "\<dots> = (s * s) / (s * s)" by (simp only: s2)
      also have "\<dots> = 1" using ss by (rule divide_self)
      finally have one: "x / s * (x / s) + y / s * (y / s) + z / s * (z / s) = 1" .
      have "normalize v = (Some (x / s), Some (y / s), Some (z / s))"
        using v nn False by (simp add: normalize_def vnorm_def s_def not_less)
      then show ?thesis
        using one by (simp add: unit_vec_def vnorm_def)
    qed
  qed
qed


lemma smooth_pass_unit_or_nan:
  assumes "smooth_pass w vs = Inr out"
  shows "length out = length vs \<and> (\<forall>v\<in>set out. unit_vec v \<or> v = nan_vec)"
proof -
  from assms obtain padded where
    out: "out = normalize_rows (smooth_loop padded (nat w) [0..<length vs] vs)"
    by (auto simp: smooth_pass_def split: if_splits sum.splits)
  then show ?thesis
    using normalize_nan_or_unit by (auto simp: normalize_rows_def length_smooth_loop)
qed

lemma smooth_passes_length:
  "smooth_passes k w vs = Inr out \<Longrightarrow> length out = length vs"
proof (induction k arbitrary: vs)
  case 0
  then show ?case by simp
next
  case (Suc k)
  then show ?case
    by (auto split: sum.splits dest!: smooth_pass_unit_or_nan)
qed

lemma smooth_passes_unit_or_nan:
  "smooth_passes (Suc k) w vs = Inr out \<Longrightarrow> \<forall>v\<in>set out. unit_vec v \<or> v = nan_vec"
proof (induction k arbitrary: vs)
  case 0
  then show ?case
    by (auto split: sum.splits dest!: smooth_pass_unit_or_nan)
next
  case (Suc k)
  from Suc.prems obtain vs' where "smooth_pass w vs = Inr vs'"
    and "smooth_passes (Suc k) w vs' = Inr out"
    by (auto split: sum.splits)
  then show ?case using Suc.IH by blast
qed

lemma smooth_passes_total:
  "0 \<le> w \<Longrightarrow> vs \<noteq> [] \<Longrightarrow> \<exists>out. smooth_passes k w vs = Inr out"
  by (simp add: smooth_passes_spec)

section \<open>Properties of compute_tangent_vectors\<close>

lemma finite_vecE:
  assumes "finite_vec v"
  obtains x y z where "v = (Some x, Some y, Some z)"
  using assms by (cases v) auto

lemma length_np_diff: "length (np_diff vs) = length vs - 1"
  by (simp add: np_diff_def)

lemma nth_np_diff: "i + 1 < length vs \<Longrightarrow> np_diff vs ! i = vsub (vs ! (i + 1)) (vs ! i)"
  by (simp add: np_diff_def nth_tl)

lemma distinct_adjacent_nth:
  "distinct_adjacent ps \<Longrightarrow> i + 1 < length ps \<Longrightarrow> ps ! i \<noteq> ps ! (i + 1)"
proof (induction ps arbitrary: i rule: distinct_adjacent.induct)
  case (1 p q ps)
  then show ?case by (cases i) simp_all
qed simp_all

lemma sum_squares_zero:
  fixes x y z :: real
  shows "x * x + y * y + z * z = 0 \<longleftrightarrow> x = 0 \<and> y = 0 \<and> z = 0"
proof
  assume h: "x * x + y * y + z * z = 0"
  have "0 \<le> x * x" "0 \<le> y * y" "0 \<le> z * z" by simp_all
  with h have "x * x = 0" "y * y = 0" "z * z = 0" by linarith+
  then show "x = 0 \<and> y = 0 \<and> z = 0" by simp
qed simp

lemma vnorm_finite:
  "vnorm (Some x, Some y, Some z) = Some (sqrt (x * x + y * y + z * z))"
  by (simp add: vnorm_def not_less)

lemma normalize_finite:
  assumes "(x, y, z) \<noteq> (0, 0, 0)"
  shows "normalize (Some x, Some y, Some z) =
    (Some (x / sqrt (x * x + y * y + z * z)), Some (y / sqrt (x * x + y * y + z * z)),
     Some (z / sqrt (x * x + y * y + z * z)))"
proof -
  have "x * x + y * y + z * z \<noteq> 0"
    using assms sum_squares_zero [of x y z] by auto
  then show ?thesis
    by (simp add: normalize_def vnorm_finite)
qed

lemma unit_normalize:
  assumes "finite_vec v" and "v \<noteq> zero_vec"
  shows "unit_vec (normalize v)"
proof -
  from assms(1) obtain x y z where v: "v = (Some x, Some y, Some z)"
    by (rule finite_vecE)
  with assms(2) have "(x, y, z) \<noteq> (0, 0, 0)"
    by (auto simp: zero_vec_def)
  then have "normalize v \<noteq> nan_vec"
    using v by (simp add: normalize_finite nan_vec_def)
  then show ?thesis
    using normalize_nan_or_unit [of v] by simp
qed

section \<open>Properties of compute_MRF\<close>

text \<open>The value the loop writes into row \<open>i\<close> of the normals.\<close>

lemma mrf_loop_Cons:
  assumes "i < length normals"
  shows "mrf_loop tangents (i # js) (normals, binormals) =
    mrf_loop tangents js
      (normals[i := normalize (vsub (normals ! (i - 1))
                      (smul (dot (normals ! (i - 1)) (tangents ! i)) (tangents ! i)))],
       binormals[i := cross (tangents ! i)
           (normalize (vsub (normals ! (i - 1))
                      (smul (dot (normals ! (i - 1)) (tangents ! i)) (tangents ! i))))])"
  using assms by (simp add: Let_def normalize_def)

lemma mrf_loop_upt:
  assumes "length ns = n" and "length bs = n" and "1 \<le> k"
    and "mrf_loop ts [k..<n] (ns, bs) = (ns', bs')"
  shows "length ns' = n \<and> length bs' = n
    \<and> (\<forall>i<k. ns' ! i = ns ! i \<and> bs' ! i = bs ! i)
    \<and> (\<forall>i. k \<le> i \<and> i < n \<longrightarrow>
          ns' ! i = normalize (vsub (ns' ! (i - 1))
                      (smul (dot (ns' ! (i - 1)) (ts ! i)) (ts ! i)))
          \<and> bs' ! i = cross (ts ! i) (ns' ! i))"
  using assms
proof (induction "n - k" arbitrary: k ns bs)
  case 0
  then have "[k..<n] = []" and "n \<le> k" by simp_all
  with 0 show ?case by auto
next
  case (Suc m)
  then have kn: "k < n" by simp
  define v where "v = normalize (vsub (ns ! (k - 1)) (smul (dot (ns ! (k - 1)) (ts ! k)) (ts ! k)))"
  define ns1 where "ns1 = ns[k := v]"
  define bs1 where "bs1 = bs[k := cross (ts ! k) v]"
  have upt: "[k..<n] = k # [Suc k..<n]" using kn by (rule upt_conv_Cons)
  have step: "mrf_loop ts [Suc k..<n] (ns1, bs1) = (ns', bs')"
    using Suc.prems(4) kn Suc.prems(1)
    by (simp only: upt mrf_loop_Cons ns1_def bs1_def v_def)
  have "m = n - Suc k" using Suc.hyps(2) by simp
  moreover have "length ns1 = n" "length bs1 = n"
    using Suc.prems by (simp_all add: ns1_def bs1_def)
  moreover have "1 \<le> Suc k" by simp
  ultimately have IH: "length ns' = n \<and> length bs' = n
    \<and> (\<forall>i<Suc k. ns' ! i = ns1 ! i \<and> bs' ! i = bs1 ! i)
    \<and> (\<forall>i. Suc k \<le> i \<and> i < n \<longrightarrow>
          ns' ! i = normalize (vsub (ns' ! (i - 1))
                      (smul (dot (ns' ! (i - 1)) (ts ! i)) (ts ! i)))
          \<and> bs' ! i = cross (ts ! i) (ns' ! i))"
    using step by (rule Suc.hyps(1))
  have old: "ns' ! i = ns ! i \<and> bs' ! i = bs ! i" if "i < k" for i
    using IH that by (simp add: ns1_def bs1_def)
  have k1: "k - 1 < k" using Suc.prems(3) by simp
  have atk: "ns' ! k = v" "bs' ! k = cross (ts ! k) v"
    using IH kn Suc.prems(1,2) by (simp_all add: ns1_def bs1_def)
  have "ns' ! (k - 1) = ns ! (k - 1)" using old [OF k1] by simp
  with atk have reck: "ns' ! k = normalize (vsub (ns' ! (k - 1))
                      (smul (dot (ns' ! (k - 1)) (ts ! k)) (ts ! k)))
          \<and> bs' ! k = cross (ts ! k) (ns' ! k)"
    by (simp add: v_def)
  have rec: "ns' ! i = normalize (vsub (ns' ! (i - 1))
                      (smul (dot (ns' ! (i - 1)) (ts ! i)) (ts ! i)))
          \<and> bs' ! i = cross (ts ! i) (ns' ! i)" if "k \<le> i" "i < n" for i
  proof (cases "i = k")
    case True
    with reck show ?thesis by simp
  next
    case False
    with that have "Suc k \<le> i" by simp
    with IH that(2) show ?thesis by blast
  qed
  show ?case using IH old rec by blast
qed

lemma mrf_init_rows:
  assumes "ts \<noteq> []"
  shows "mrf_init ts = (ns, bs) \<Longrightarrow>
    length ns = length ts \<and> length bs = length ts
    \<and> ns ! 0 = normalize (first_normal (ts ! 0)) \<and> bs ! 0 = cross (ts ! 0) (ns ! 0)"
  using assms by (auto simp: mrf_init_def Let_def normalize_def)

lemma upt12: "[1..<2] = [1]" by (simp add: upt_rec)

lemmas mrf_eval =
  mrf_frames_def mrf_init_def first_normal_def Let_def normalize_def vnorm_def vec_of_def
  zero_vec_def upt12

lemma mrf_frames_rows:
  assumes "ts \<noteq> []"
  shows "\<exists>ns bs. mrf_frames ts = Inr (ns, bs)
    \<and> length ns = length ts \<and> length bs = length ts
    \<and> ns ! 0 = normalize (first_normal (ts ! 0)) \<and> bs ! 0 = cross (ts ! 0) (ns ! 0)
    \<and> (\<forall>i. 1 \<le> i \<and> i < length ts \<longrightarrow>
          ns ! i = normalize (vsub (ns ! (i - 1))
                      (smul (dot (ns ! (i - 1)) (ts ! i)) (ts ! i)))
          \<and> bs ! i = cross (ts ! i) (ns ! i))"
proof -
  obtain ns0 bs0 where init: "mrf_init ts = (ns0, bs0)" by (cases "mrf_init ts")
  obtain ns bs where loop: "mrf_loop ts [1..<length ts] (ns0, bs0) = (ns, bs)"
    by (cases "mrf_loop ts [1..<length ts] (ns0, bs0)")
  from mrf_init_rows [OF assms init]
  have i0: "length ns0 = length ts" "length bs0 = length ts"
    "ns0 ! 0 = normalize (first_normal (ts ! 0))" "bs0 ! 0 = cross (ts ! 0) (ns0 ! 0)"
    by simp_all
  from mrf_loop_upt [OF i0(1) i0(2) _ loop]
  have L: "length ns = length ts" "length bs = length ts"
    "\<forall>i<1. ns ! i = ns0 ! i \<and> bs ! i = bs0 ! i"
    "\<forall>i. 1 \<le> i \<and> i < length ts \<longrightarrow>
          ns ! i = normalize (vsub (ns ! (i - 1))
                      (smul (dot (ns ! (i - 1)) (ts ! i)) (ts ! i)))
          \<and> bs ! i = cross (ts ! i) (ns ! i)"
    by simp_all
  from L(3) have "ns ! 0 = ns0 ! 0" "bs ! 0 = bs0 ! 0" by simp_all
  with i0 have "ns ! 0 = normalize (first_normal (ts ! 0))" "bs ! 0 = cross (ts ! 0) (ns ! 0)"
    by simp_all
  moreover have "mrf_frames ts = Inr (ns, bs)"
    using assms init loop by (simp add: mrf_frames_def)
  ultimately show ?thesis using L by blast
qed

lemma project_spec: "vsub m (smul (dot m t) t) = spec_project m t"
  by (cases m; cases t) (simp add: Let_def)

lemma cross_spec: "cross t n = spec_cross t n"
  by (cases t; cases n) simp

lemma projection_residual:
  "dot (vec_of t1 t2 t3) (spec_project (vec_of m1 m2 m3) (vec_of t1 t2 t3))
     = Some ((m1 * t1 + m2 * t2 + m3 * t3) * (1 - (t1 * t1 + t2 * t2 + t3 * t3)))"
  by (simp add: vec_of_def Let_def algebra_simps)

lemma sqrt_9_25: "sqrt (9 / 25) = 3 / 5"
  by (simp add: real_sqrt_divide sqrt9 sqrt25)

text \<open>
  C4. For every sequence of tangents with at least one row (unit or not), the
  propagation of compute_MRF leaves, before the smoothing of lines 81-82, arrays in which
  for every index \<open>i \<ge> 1\<close> the normal \<open>i\<close> is the renormalized result of subtracting
  from the normal \<open>i - 1\<close> its component along the tangent \<open>i\<close>, and the binormal \<open>i\<close> is
  the cross product of the tangent \<open>i\<close> and the normal \<open>i\<close>, each as the specification
  words it on the components; compute_MRF returns the smoothing of both arrays. The vector
  that is renormalized has with the tangent \<open>t\<close> the dot product
  \<open>(m \<cdot> t) (1 - t \<cdot> t)\<close>: it lies in the plane orthogonal to a tangent of norm 1.
\<close>

theorem mrf_frames_recurrence:
  assumes "ts \<noteq> []"
  shows "(\<exists>ns bs. mrf_frames ts = Inr (ns, bs)
      \<and> length ns = length ts \<and> length bs = length ts
      \<and> ns ! 0 = spec_unit (first_normal (ts ! 0)) \<and> bs ! 0 = spec_cross (ts ! 0) (ns ! 0)
      \<and> (\<forall>i. 1 \<le> i \<and> i < length ts \<longrightarrow>
            ns ! i = spec_unit (spec_project (ns ! (i - 1)) (ts ! i))
            \<and> bs ! i = spec_cross (ts ! i) (ns ! i))
      \<and> compute_MRF ts =
          (case smooth_vectors_default ns of
             Inl e \<Rightarrow> Inl e
           | Inr normals' \<Rightarrow>
          (case smooth_vectors_default bs of
             Inl e \<Rightarrow> Inl e
           | Inr binormals' \<Rightarrow> Inr (normals', binormals'))))
    \<and> dot (vec_of t1 t2 t3) (spec_project (vec_of m1 m2 m3) (vec_of t1 t2 t3))
        = Some ((m1 * t1 + m2 * t2 + m3 * t3) * (1 - (t1 * t1 + t2 * t2 + t3 * t3)))
    \<and> (t1 * t1 + t2 * t2 + t3 * t3 = 1 \<longrightarrow>
          dot (vec_of t1 t2 t3) (spec_project (vec_of m1 m2 m3) (vec_of t1 t2 t3)) = Some 0)"
proof -
  from mrf_frames_rows [OF assms] obtain ns bs where
    mf: "mrf_frames ts = Inr (ns, bs)"
    and len: "length ns = length ts" "length bs = length ts"
    and r0: "ns ! 0 = normalize (first_normal (ts ! 0))" "bs ! 0 = cross (ts ! 0) (ns ! 0)"
    and rec: "\<forall>i. 1 \<le> i \<and> i < length ts \<longrightarrow>
          ns ! i = normalize (vsub (ns ! (i - 1))
                      (smul (dot (ns ! (i - 1)) (ts ! i)) (ts ! i)))
          \<and> bs ! i = cross (ts ! i) (ns ! i)"
    by blast
  have s0: "ns ! 0 = spec_unit (first_normal (ts ! 0))" "bs ! 0 = spec_cross (ts ! 0) (ns ! 0)"
    using r0 by (simp_all add: normalize_spec cross_spec)
  have srec: "\<forall>i. 1 \<le> i \<and> i < length ts \<longrightarrow>
            ns ! i = spec_unit (spec_project (ns ! (i - 1)) (ts ! i))
            \<and> bs ! i = spec_cross (ts ! i) (ns ! i)"
    using rec by (simp add: normalize_spec cross_spec project_spec)
  have cm: "compute_MRF ts =
        (case smooth_vectors_default ns of
           Inl e \<Rightarrow> Inl e
         | Inr normals' \<Rightarrow>
        (case smooth_vectors_default bs of
           Inl e \<Rightarrow> Inl e
         | Inr binormals' \<Rightarrow> Inr (normals', binormals')))"
    by (simp add: compute_MRF_def mf)
  have first: "\<exists>ns bs. mrf_frames ts = Inr (ns, bs)
      \<and> length ns = length ts \<and> length bs = length ts
      \<and> ns ! 0 = spec_unit (first_normal (ts ! 0)) \<and> bs ! 0 = spec_cross (ts ! 0) (ns ! 0)
      \<and> (\<forall>i. 1 \<le> i \<and> i < length ts \<longrightarrow>
            ns ! i = spec_unit (spec_project (ns ! (i - 1)) (ts ! i))
            \<and> bs ! i = spec_cross (ts ! i) (ns ! i))
      \<and> compute_MRF ts =
          (case smooth_vectors_default ns of
             Inl e \<Rightarrow> Inl e
           | Inr normals' \<Rightarrow>
          (case smooth_vectors_default bs of
             Inl e \<Rightarrow> Inl e
           | Inr binormals' \<Rightarrow> Inr (normals', binormals')))"
    using mf len s0 srec cm by blast
  have res: "dot (vec_of t1 t2 t3) (spec_project (vec_of m1 m2 m3) (vec_of t1 t2 t3))
        = Some ((m1 * t1 + m2 * t2 + m3 * t3) * (1 - (t1 * t1 + t2 * t2 + t3 * t3)))"
    by (rule projection_residual)
  have "dot (vec_of t1 t2 t3) (spec_project (vec_of m1 m2 m3) (vec_of t1 t2 t3)) = Some 0"
    if "t1 * t1 + t2 * t2 + t3 * t3 = 1"
    using that by (simp only: res) simp
  with first res show ?thesis by blast
qed

text \<open>
  A second tangent that is not orthogonal to the first normal: the component
  \<open>-4/5\<close> along it is subtracted.
\<close>

theorem mrf_frames_recurrence_witness:
  "[vec_of 1 0 0, vec_of (3 / 5) (4 / 5) 0] \<noteq> []
   \<and> mrf_frames [vec_of 1 0 0, vec_of (3 / 5) (4 / 5) 0]
       = Inr ([vec_of 0 (- 1) 0, vec_of (4 / 5) (- (3 / 5)) 0],
              [vec_of 0 0 (- 1), vec_of 0 0 (- 1)])
   \<and> spec_project (vec_of 0 (- 1) 0) (vec_of (3 / 5) (4 / 5) 0)
       = vec_of (12 / 25) (- (9 / 25)) 0
   \<and> spec_unit (vec_of (12 / 25) (- (9 / 25)) 0) = vec_of (4 / 5) (- (3 / 5)) 0
   \<and> spec_cross (vec_of (3 / 5) (4 / 5) 0) (vec_of (4 / 5) (- (3 / 5)) 0) = vec_of 0 0 (- 1)
   \<and> (3 / 5) * (3 / 5) + (4 / 5) * (4 / 5) + 0 * 0 = (1::real)
   \<and> dot (vec_of (3 / 5) (4 / 5) 0) (vec_of (12 / 25) (- (9 / 25)) 0) = Some 0"
proof -
  let ?T = "[vec_of 1 0 0, vec_of (3 / 5) (4 / 5) 0]"
  let ?N = "[vec_of 0 (- 1) 0, vec_of (4 / 5) (- (3 / 5)) 0]"
  let ?B = "[vec_of 0 0 (- 1), vec_of 0 0 (- 1)]"
  have ne: "?T \<noteq> []" by simp
  have p: "spec_project (vec_of 0 (- 1) 0) (vec_of (3 / 5) (4 / 5) 0)
       = vec_of (12 / 25) (- (9 / 25)) 0"
    by (simp add: vec_of_def Let_def)
  have u: "spec_unit (vec_of (12 / 25) (- (9 / 25)) 0) = vec_of (4 / 5) (- (3 / 5)) 0"
    by (simp add: vec_of_def Let_def sqrt_9_25)
  have c: "spec_cross (vec_of (3 / 5) (4 / 5) 0) (vec_of (4 / 5) (- (3 / 5)) 0) = vec_of 0 0 (- 1)"
    by (simp add: vec_of_def)
  have one: "(3 / 5) * (3 / 5) + (4 / 5) * (4 / 5) + 0 * 0 = (1::real)" by simp
  from mrf_frames_recurrence [OF ne, of "3 / 5" "4 / 5" 0 0 "- 1" 0] obtain ns bs where
    mf: "mrf_frames ?T = Inr (ns, bs)"
    and len: "length ns = length ?T" "length bs = length ?T"
    and r0: "ns ! 0 = spec_unit (first_normal (?T ! 0))" "bs ! 0 = spec_cross (?T ! 0) (ns ! 0)"
    and rec: "\<forall>i. 1 \<le> i \<and> i < length ?T \<longrightarrow>
            ns ! i = spec_unit (spec_project (ns ! (i - 1)) (?T ! i))
            \<and> bs ! i = spec_cross (?T ! i) (ns ! i)"
    and z: "dot (vec_of (3 / 5) (4 / 5) 0)
              (spec_project (vec_of 0 (- 1) 0) (vec_of (3 / 5) (4 / 5) 0)) = Some 0"
    using one by blast
  have n0: "ns ! 0 = vec_of 0 (- 1) 0"
    using r0(1) by (simp add: first_normal_def vec_of_def Let_def)
  have b0: "bs ! 0 = vec_of 0 0 (- 1)"
    using r0(2) n0 by (simp add: vec_of_def)
  from rec have "ns ! 1 = spec_unit (spec_project (ns ! 0) (?T ! 1))
      \<and> bs ! 1 = spec_cross (?T ! 1) (ns ! 1)" by simp
  then have n1: "ns ! 1 = vec_of (4 / 5) (- (3 / 5)) 0" and b1: "bs ! 1 = vec_of 0 0 (- 1)"
    using n0 p u c by simp_all
  have "ns = ?N"
    using len(1) n0 n1 by (intro nth_equalityI) (auto simp: less_Suc_eq)
  moreover have "bs = ?B"
    using len(2) b0 b1 by (intro nth_equalityI) (auto simp: less_Suc_eq)
  ultimately have "mrf_frames ?T = Inr (?N, ?B)" using mf by simp
  moreover have "dot (vec_of (3 / 5) (4 / 5) 0) (vec_of (12 / 25) (- (9 / 25)) 0) = Some 0"
    using z p by simp
  ultimately show ?thesis using p u c one by simp
qed


subsection \<open>Identities on rows\<close>

lemma unit_vecE:
  assumes "unit_vec t"
  obtains a b c where "t = (Some a, Some b, Some c)" and "a * a + b * b + c * c = 1"
proof -
  obtain p q r where t: "t = (p, q, r)" by (cases t)
  from assms t obtain a b c where abc: "p = Some a" "q = Some b" "r = Some c"
    by (cases p; cases q; cases r) (simp_all add: unit_vec_def vnorm_def)
  with assms t have "sqrt (a * a + b * b + c * c) = 1"
    by (simp add: unit_vec_def vnorm_finite)
  then have "a * a + b * b + c * c = 1" by simp
  with t abc show ?thesis using that by simp
qed



lemma smooth_vectors_default_rows:
  assumes "vs \<noteq> []"
  shows "\<exists>out. smooth_vectors_default vs = Inr out \<and> length out = length vs
    \<and> (\<forall>v\<in>set out. unit_vec v \<or> v = nan_vec)"
proof -
  have "(0::int) \<le> 10" by simp
  from smooth_passes_total [OF this assms, of "Suc 0"]
  obtain out where out: "smooth_passes (Suc 0) 10 vs = Inr out" by blast
  then show ?thesis
    using smooth_passes_length [OF out] smooth_passes_unit_or_nan [OF out]
    by (simp add: smooth_vectors_default_def smooth_vectors_def)
qed


section \<open>Normalization of a zero vector\<close>

lemma normalize_zero: "normalize zero_vec = nan_vec"
  by (simp add: normalize_def vnorm_def zero_vec_def nan_vec_def)

lemma normalized_tangents_rows:
  assumes "2 \<le> length pts"
  shows "normalized_tangents pts = Inr (normalize_rows (np_diff pts @ [last (np_diff pts)]))
    \<and> length (normalize_rows (np_diff pts @ [last (np_diff pts)])) = length pts
    \<and> (\<forall>i. i + 1 < length pts \<longrightarrow>
          normalize_rows (np_diff pts @ [last (np_diff pts)]) ! i
            = normalize (vsub (pts ! (i + 1)) (pts ! i)))"
proof -
  have ld: "length (np_diff pts) = length pts - 1" by (rule length_np_diff)
  with assms have dne: "np_diff pts \<noteq> []" by auto
  have "normalize_rows (np_diff pts @ [last (np_diff pts)]) ! i
            = normalize (vsub (pts ! (i + 1)) (pts ! i))" if "i + 1 < length pts" for i
  proof -
    from that ld have "i < length (np_diff pts)" by simp
    then show ?thesis
      using that by (simp add: normalize_rows_def nth_append nth_np_diff)
  qed
  moreover have "normalized_tangents pts = Inr (normalize_rows (np_diff pts @ [last (np_diff pts)]))"
    using dne by (simp add: normalized_tangents_def tangent_differences_def Let_def)
  moreover have "length (normalize_rows (np_diff pts @ [last (np_diff pts)])) = length pts"
    using ld assms by (simp add: normalize_rows_def)
  ultimately show ?thesis by blast
qed

lemma guarded_normalize_rows_nth:
  assumes "i < length vs"
  shows "guarded_normalize_rows vs ! i =
    (if flt (vnorm (vs ! i)) (Some (1 / 10 ^ 6)) then zero_vec else normalize (vs ! i))"
  using assms by (simp add: guarded_normalize_rows_def Let_def normalize_def)

text \<open>
  C8, amended. A normalization step that meets a zero vector raises nothing and writes
  \<^verbatim>\<open>nan\<close> into the three components of the row. Tangent estimation returns on
  every curve of at least two points, with \<^verbatim>\<open>nan\<close> as the tangent before
  smoothing of every segment of length zero; frame propagation returns on every sequence of
  at least one tangent, with a \<^verbatim>\<open>nan\<close> normal wherever the vector to normalize
  is zero. compute_normal_vectors replaces, before its smoothing, every difference whose
  norm is below \<open>1e-6\<close> by the zero vector. No function has a zero-vector error.
\<close>

theorem zero_vector_gives_nan_without_error:
  "normalize zero_vec = nan_vec
   \<and> (2 \<le> length pts \<longrightarrow>
        (\<exists>ts ts'. normalized_tangents pts = Inr ts \<and> length ts = length pts
           \<and> (\<forall>i. i + 1 < length pts \<and> vsub (pts ! (i + 1)) (pts ! i) = zero_vec
                 \<longrightarrow> ts ! i = nan_vec)
           \<and> compute_tangent_vectors pts = Inr ts' \<and> length ts' = length pts))
   \<and> (tangents \<noteq> [] \<longrightarrow>
        (\<exists>ns bs ns' bs'. mrf_frames tangents = Inr (ns, bs)
           \<and> (first_normal (tangents ! 0) = zero_vec \<longrightarrow> ns ! 0 = nan_vec)
           \<and> (\<forall>i. 1 \<le> i \<and> i < length tangents
                 \<and> vsub (ns ! (i - 1)) (smul (dot (ns ! (i - 1)) (tangents ! i)) (tangents ! i))
                     = zero_vec
                 \<longrightarrow> ns ! i = nan_vec)
           \<and> compute_MRF tangents = Inr (ns', bs')))
   \<and> (k < length vs \<and> flt (vnorm (vs ! k)) (Some (1 / 10 ^ 6))
        \<longrightarrow> guarded_normalize_rows vs ! k = zero_vec)"
proof -
  have B: "\<exists>ts ts'. normalized_tangents pts = Inr ts \<and> length ts = length pts
           \<and> (\<forall>i. i + 1 < length pts \<and> vsub (pts ! (i + 1)) (pts ! i) = zero_vec
                 \<longrightarrow> ts ! i = nan_vec)
           \<and> compute_tangent_vectors pts = Inr ts' \<and> length ts' = length pts"
    if len: "2 \<le> length pts"
  proof -
    define ts where "ts = normalize_rows (np_diff pts @ [last (np_diff pts)])"
    from normalized_tangents_rows [OF len]
    have nt: "normalized_tangents pts = Inr ts" and lts: "length ts = length pts"
      and rows: "\<forall>i. i + 1 < length pts \<longrightarrow> ts ! i = normalize (vsub (pts ! (i + 1)) (pts ! i))"
      by (simp_all add: ts_def)
    from lts len have "ts \<noteq> []" by auto
    from smooth_vectors_default_rows [OF this] obtain ts' where
      "smooth_vectors_default ts = Inr ts'" "length ts' = length ts" by blast
    then have "compute_tangent_vectors pts = Inr ts'" "length ts' = length pts"
      using nt lts by (simp_all add: compute_tangent_vectors_def)
    moreover have "\<forall>i. i + 1 < length pts \<and> vsub (pts ! (i + 1)) (pts ! i) = zero_vec
                 \<longrightarrow> ts ! i = nan_vec"
      using rows by (simp add: normalize_zero)
    ultimately show ?thesis using nt lts by blast
  qed
  have C: "\<exists>ns bs ns' bs'. mrf_frames tangents = Inr (ns, bs)
           \<and> (first_normal (tangents ! 0) = zero_vec \<longrightarrow> ns ! 0 = nan_vec)
           \<and> (\<forall>i. 1 \<le> i \<and> i < length tangents
                 \<and> vsub (ns ! (i - 1)) (smul (dot (ns ! (i - 1)) (tangents ! i)) (tangents ! i))
                     = zero_vec
                 \<longrightarrow> ns ! i = nan_vec)
           \<and> compute_MRF tangents = Inr (ns', bs')"
    if ne: "tangents \<noteq> []"
  proof -
    from mrf_frames_rows [OF ne] obtain ns bs where
      mf: "mrf_frames tangents = Inr (ns, bs)"
      and len: "length ns = length tangents" "length bs = length tangents"
      and n0: "ns ! 0 = normalize (first_normal (tangents ! 0))"
      and rec: "\<forall>i. 1 \<le> i \<and> i < length tangents \<longrightarrow>
          ns ! i = normalize (vsub (ns ! (i - 1))
                      (smul (dot (ns ! (i - 1)) (tangents ! i)) (tangents ! i)))
          \<and> bs ! i = cross (tangents ! i) (ns ! i)"
      by blast
    from len ne have nne: "ns \<noteq> []" and bne: "bs \<noteq> []" by auto
    from smooth_vectors_default_rows [OF nne] obtain ns' where
      sn: "smooth_vectors_default ns = Inr ns'" by blast
    from smooth_vectors_default_rows [OF bne] obtain bs' where
      sb: "smooth_vectors_default bs = Inr bs'" by blast
    have cm: "compute_MRF tangents = Inr (ns', bs')"
      by (simp add: compute_MRF_def mf sn sb)
    have z0: "first_normal (tangents ! 0) = zero_vec \<longrightarrow> ns ! 0 = nan_vec"
      using n0 by (simp add: normalize_zero)
    have zi: "\<forall>i. 1 \<le> i \<and> i < length tangents
                 \<and> vsub (ns ! (i - 1)) (smul (dot (ns ! (i - 1)) (tangents ! i)) (tangents ! i))
                     = zero_vec
                 \<longrightarrow> ns ! i = nan_vec"
      using rec by (simp add: normalize_zero)
    from mf z0 zi cm show ?thesis by blast
  qed
  have D: "guarded_normalize_rows vs ! k = zero_vec"
    if "k < length vs" "flt (vnorm (vs ! k)) (Some (1 / 10 ^ 6))"
    using that by (simp add: guarded_normalize_rows_nth)
  from B C D show ?thesis
    by (intro conjI impI normalize_zero) blast+
qed

theorem zero_vector_gives_nan_without_error_witness:
  "2 \<le> length [vec_of 0 0 0, vec_of 0 0 0]
   \<and> vsub ([vec_of 0 0 0, vec_of 0 0 0] ! 1) ([vec_of 0 0 0, vec_of 0 0 0] ! 0) = zero_vec
   \<and> normalized_tangents [vec_of 0 0 0, vec_of 0 0 0] = Inr [nan_vec, nan_vec]
   \<and> [vec_of 0 0 1] \<noteq> [] \<and> first_normal ([vec_of 0 0 1] ! 0) = zero_vec
   \<and> mrf_frames [vec_of 0 0 1] = Inr ([nan_vec], [nan_vec])
   \<and> (1::nat) < length [vec_of 1 0 0, vec_of 0 1 0]
   \<and> vsub (vec_of 0 (- 1) 0) (smul (dot (vec_of 0 (- 1) 0) (vec_of 0 1 0)) (vec_of 0 1 0))
       = zero_vec
   \<and> mrf_frames [vec_of 1 0 0, vec_of 0 1 0]
       = Inr ([vec_of 0 (- 1) 0, nan_vec], [vec_of 0 0 (- 1), nan_vec])
   \<and> 0 < length [vec_of 0 0 0] \<and> flt (vnorm ([vec_of 0 0 0] ! 0)) (Some (1 / 10 ^ 6))
   \<and> guarded_normalize_rows [vec_of 0 0 0] ! 0 = zero_vec"
proof -
  let ?P = "[vec_of 0 0 0, vec_of 0 0 0]"
  let ?T = "[vec_of 0 0 1]"
  let ?U = "[vec_of 1 0 0, vec_of 0 1 0]"
  let ?V = "[vec_of 0 0 0]"
  have nt: "normalized_tangents ?P = Inr [nan_vec, nan_vec]"
    by (simp add: normalized_tangents_def tangent_differences_def np_diff_def
        normalize_rows_def normalize_def vnorm_def vec_of_def nan_vec_def)
  have mt: "mrf_frames ?T = Inr ([nan_vec], [nan_vec])"
    by (simp add: mrf_frames_def mrf_init_def first_normal_def Let_def vnorm_def vec_of_def
        zero_vec_def nan_vec_def)
  have mu: "mrf_frames ?U = Inr ([vec_of 0 (- 1) 0, nan_vec], [vec_of 0 0 (- 1), nan_vec])"
    by (simp add: mrf_eval nan_vec_def)
  have hP: "2 \<le> length ?P" "vsub (?P ! 1) (?P ! 0) = zero_vec"
    by (simp_all add: vec_of_def zero_vec_def)
  have hT: "?T \<noteq> []" "first_normal (?T ! 0) = zero_vec"
    by (simp_all add: first_normal_def vec_of_def zero_vec_def)
  have hU: "vsub (vec_of 0 (- 1) 0) (smul (dot (vec_of 0 (- 1) 0) (vec_of 0 1 0)) (vec_of 0 1 0))
       = zero_vec"
    by (simp add: vec_of_def zero_vec_def)
  have hV: "0 < length ?V" "flt (vnorm (?V ! 0)) (Some (1 / 10 ^ 6))"
    by (simp_all add: vnorm_def vec_of_def)
  have "guarded_normalize_rows ?V ! 0 = zero_vec"
    using zero_vector_gives_nan_without_error [of ?P ?T 0 ?V] hV by blast
  moreover have "\<exists>ns bs. mrf_frames ?U = Inr (ns, bs)"
    using zero_vector_gives_nan_without_error [of ?P ?U 0 ?V] by blast
  ultimately show ?thesis
    using nt mt mu hP hT hU hV by simp
qed

text \<open>
  The claim as stated fails: two coincident points give \<^verbatim>\<open>nan\<close> tangents, and
  the unit tangent \<open>(0,0,1)\<close> gives a \<^verbatim>\<open>nan\<close> normal and binormal, both as
  ordinary results.
\<close>

theorem zero_vector_counterexample:
  "compute_tangent_vectors [vec_of 0 0 0, vec_of 0 0 0] = Inr [nan_vec, nan_vec]
   \<and> unit_vec (vec_of 0 0 1)
   \<and> compute_MRF [vec_of 0 0 1] = Inr ([nan_vec], [nan_vec])"
proof -
  have "normalized_tangents [vec_of 0 0 0, vec_of 0 0 0] = Inr [nan_vec, nan_vec]"
    by (simp add: normalized_tangents_def tangent_differences_def np_diff_def
        normalize_rows_def normalize_def vnorm_def vec_of_def nan_vec_def)
  moreover have "smooth_vectors_default [nan_vec, nan_vec] = Inr [nan_vec, nan_vec]"
    by (simp add: smooth_vectors_default_def smooth_eval upt2 eval_nat_numeral)
  ultimately have a: "compute_tangent_vectors [vec_of 0 0 0, vec_of 0 0 0] = Inr [nan_vec, nan_vec]"
    by (simp add: compute_tangent_vectors_def)
  have mf: "mrf_frames [vec_of 0 0 1] = Inr ([nan_vec], [nan_vec])"
    by (simp add: mrf_frames_def mrf_init_def first_normal_def Let_def vnorm_def vec_of_def
        zero_vec_def nan_vec_def)
  have "smooth_vectors_default [nan_vec] = Inr [nan_vec]"
    by (simp add: smooth_vectors_default_def smooth_eval eval_nat_numeral)
  with mf have b: "compute_MRF [vec_of 0 0 1] = Inr ([nan_vec], [nan_vec])"
    by (simp add: compute_MRF_def)
  have "unit_vec (vec_of 0 0 1)"
    by (simp add: unit_vec_def vnorm_def vec_of_def)
  with a b show ?thesis by simp
qed



section \<open>Norms of the smoothed vectors\<close>

lemma smooth_passes_last:
  "smooth_passes (Suc k) w vs =
     (case smooth_passes k w vs of Inl e \<Rightarrow> Inl e | Inr prev \<Rightarrow> smooth_pass w prev)"
proof (induction k arbitrary: vs)
  case 0
  show ?case by (simp split: sum.splits)
next
  case (Suc k)
  show ?case
  proof (cases "smooth_pass w vs")
    case (Inl e)
    then show ?thesis by simp
  next
    case (Inr vs')
    have "smooth_passes (Suc (Suc k)) w vs = smooth_passes (Suc k) w vs'"
      using Inr by simp
    also have "\<dots> = (case smooth_passes k w vs' of Inl e \<Rightarrow> Inl e | Inr prev \<Rightarrow> smooth_pass w prev)"
      by (rule Suc.IH)
    also have "smooth_passes k w vs' = smooth_passes (Suc k) w vs"
      using Inr by simp
    finally show ?thesis .
  qed
qed

lemma smooth_pass_rows:
  assumes "smooth_pass w prev = Inr out"
  shows "\<exists>padded. np_pad_edge (nat (w div 2)) prev = Inr padded \<and> length out = length prev
    \<and> (\<forall>i<length prev. out ! i = normalize (np_mean (window padded (nat w) i)))"
proof -
  from assms obtain padded where
    pad: "np_pad_edge (nat (w div 2)) prev = Inr padded"
    and out: "out = normalize_rows (smooth_loop padded (nat w) [0..<length prev] prev)"
    by (auto simp: smooth_pass_def split: if_splits sum.splits)
  have "out = map normalize (batch_means padded (nat w) (length prev))"
    by (simp add: out normalize_rows_def smooth_loop_batch)
  then have "length out = length prev"
    and "\<forall>i<length prev. out ! i = normalize (np_mean (window padded (nat w) i))"
    by (simp_all add: batch_means_def)
  with pad show ?thesis by blast
qed

lemma vnorm_SomeE:
  assumes "vnorm v = Some s"
  obtains x y z where "v = (Some x, Some y, Some z)" and "s = sqrt (x * x + y * y + z * z)"
proof -
  obtain p q r where v: "v = (p, q, r)" by (cases v)
  from assms v obtain x y z where xyz: "p = Some x" "q = Some y" "r = Some z"
    by (cases p; cases q; cases r) (simp_all add: vnorm_def)
  with assms v have "s = sqrt (x * x + y * y + z * z)"
    by (simp add: vnorm_finite)
  with v xyz show ?thesis using that by simp
qed

lemma unit_normalize_positive_norm:
  assumes "vnorm v = Some s" and "0 < s"
  shows "unit_vec (normalize v)"
proof -
  from assms(1) obtain x y z where v: "v = (Some x, Some y, Some z)"
    and s: "s = sqrt (x * x + y * y + z * z)" by (rule vnorm_SomeE)
  have "v \<noteq> zero_vec"
  proof
    assume "v = zero_vec"
    with v s have "s = 0" by (simp add: zero_vec_def)
    with assms(2) show False by simp
  qed
  moreover have "finite_vec v" by (simp add: v)
  ultimately show ?thesis by (rule unit_normalize [rotated])
qed

lemma tiny_positive: "0 < tiny"
  by (simp add: tiny_def)

text \<open>
  C6, amended. smooth_vectors returns on every sequence with at least one row and every
  window size \<open>w \<ge> 0\<close>, and whenever it returns the output has as many rows as the
  input. With at least one pass, every output row is the mean of its window in the last
  pass divided by the norm of that mean: it is \<^verbatim>\<open>nan\<close> in its three components
  when the mean is the zero vector, and it has unit length when the rows of the window are
  finite with components of at most \<open>1e150\<close> in absolute value and the norm of the mean
  is at least \<open>1e-150\<close>.
\<close>

theorem smooth_vectors_rows_unit:
  "(0 \<le> w \<and> vs \<noteq> [] \<longrightarrow> (\<exists>r. smooth_vectors vs w p = Inr r))
   \<and> (smooth_vectors vs w p = Inr out \<longrightarrow> length out = length vs)
   \<and> (smooth_vectors vs w p = Inr out \<and> 1 \<le> p \<longrightarrow>
        (\<exists>prev padded. smooth_vectors vs w (p - 1) = Inr prev \<and> length prev = length vs
           \<and> np_pad_edge (nat (w div 2)) prev = Inr padded
           \<and> (\<forall>i<length vs.
                out ! i = normalize (np_mean (window padded (nat w) i))
                \<and> (np_mean (window padded (nat w) i) = zero_vec \<longrightarrow> out ! i = nan_vec)
                \<and> ((\<forall>v\<in>set (window padded (nat w) i). bounded_vec huge v)
                     \<and> (\<exists>s. vnorm (np_mean (window padded (nat w) i)) = Some s \<and> tiny \<le> s)
                    \<longrightarrow> unit_vec (out ! i)))))"
proof -
  have total: "\<exists>r. smooth_vectors vs w p = Inr r" if "0 \<le> w" "vs \<noteq> []"
    using smooth_passes_total [OF that] by (simp add: smooth_vectors_def)
  have len: "length out = length vs" if "smooth_vectors vs w p = Inr out"
    using that smooth_passes_length by (simp add: smooth_vectors_def)
  have rows: "\<exists>prev padded. smooth_vectors vs w (p - 1) = Inr prev \<and> length prev = length vs
           \<and> np_pad_edge (nat (w div 2)) prev = Inr padded
           \<and> (\<forall>i<length vs.
                out ! i = normalize (np_mean (window padded (nat w) i))
                \<and> (np_mean (window padded (nat w) i) = zero_vec \<longrightarrow> out ! i = nan_vec)
                \<and> ((\<forall>v\<in>set (window padded (nat w) i). bounded_vec huge v)
                     \<and> (\<exists>s. vnorm (np_mean (window padded (nat w) i)) = Some s \<and> tiny \<le> s)
                    \<longrightarrow> unit_vec (out ! i)))"
    if ret: "smooth_vectors vs w p = Inr out" and p: "1 \<le> p"
  proof -
    from p have np: "nat p = Suc (nat (p - 1))" by linarith
    from ret have "smooth_passes (Suc (nat (p - 1))) w vs = Inr out"
      by (simp add: smooth_vectors_def np)
    then have "(case smooth_passes (nat (p - 1)) w vs of
                  Inl e \<Rightarrow> Inl e | Inr prev \<Rightarrow> smooth_pass w prev) = Inr out"
      by (simp only: smooth_passes_last)
    then obtain prev where prev: "smooth_passes (nat (p - 1)) w vs = Inr prev"
      and last: "smooth_pass w prev = Inr out"
      by (cases "smooth_passes (nat (p - 1)) w vs") simp_all
    from smooth_pass_rows [OF last] obtain padded where
      pad: "np_pad_edge (nat (w div 2)) prev = Inr padded"
      and lo: "length out = length prev"
      and at: "\<forall>i<length prev. out ! i = normalize (np_mean (window padded (nat w) i))"
      by blast
    have lp: "length prev = length vs" using prev by (rule smooth_passes_length)
    have row: "out ! i = normalize (np_mean (window padded (nat w) i))
                \<and> (np_mean (window padded (nat w) i) = zero_vec \<longrightarrow> out ! i = nan_vec)
                \<and> ((\<forall>v\<in>set (window padded (nat w) i). bounded_vec huge v)
                     \<and> (\<exists>s. vnorm (np_mean (window padded (nat w) i)) = Some s \<and> tiny \<le> s)
                    \<longrightarrow> unit_vec (out ! i))"
      if "i < length vs" for i
    proof -
      let ?m = "np_mean (window padded (nat w) i)"
      from that lp at have o: "out ! i = normalize ?m" by simp
      have z: "?m = zero_vec \<longrightarrow> out ! i = nan_vec"
        using o by (simp add: normalize_zero)
      have u: "unit_vec (out ! i)" if "\<exists>s. vnorm ?m = Some s \<and> tiny \<le> s"
      proof -
        from that obtain s where "vnorm ?m = Some s" "tiny \<le> s" by blast
        moreover from this tiny_positive have "0 < s" by linarith
        ultimately show ?thesis
          using o unit_normalize_positive_norm by simp
      qed
      from o z u show ?thesis by blast
    qed
    have "smooth_vectors vs w (p - 1) = Inr prev"
      using prev by (simp add: smooth_vectors_def)
    with lp pad row show ?thesis by blast
  qed
  from total len rows show ?thesis by blast
qed


theorem smooth_vectors_rows_unit_witness:
  "(0::int) \<le> 2 \<and> [vec_of 3 0 0, vec_of 0 4 0] \<noteq> [] \<and> (1::int) \<le> 1
   \<and> smooth_vectors [vec_of 3 0 0, vec_of 0 4 0] 2 1
       = Inr [vec_of 1 0 0, vec_of (3 / 5) (4 / 5) 0]
   \<and> np_pad_edge (nat (2 div 2)) [vec_of 3 0 0, vec_of 0 4 0]
       = Inr [vec_of 3 0 0, vec_of 3 0 0, vec_of 0 4 0, vec_of 0 4 0]
   \<and> window [vec_of 3 0 0, vec_of 3 0 0, vec_of 0 4 0, vec_of 0 4 0] (nat 2) 1
       = [vec_of 3 0 0, vec_of 0 4 0]
   \<and> bounded_vec huge (vec_of 3 0 0) \<and> bounded_vec huge (vec_of 0 4 0)
   \<and> vnorm (np_mean [vec_of 3 0 0, vec_of 0 4 0]) = Some (5 / 2) \<and> tiny \<le> 5 / 2
   \<and> unit_vec (vec_of (3 / 5) (4 / 5) 0)
   \<and> smooth_vectors [vec_of 1 0 0, vec_of (- 1) 0 0] 2 1 = Inr [vec_of 1 0 0, nan_vec]
   \<and> np_mean [vec_of 1 0 0, vec_of (- 1) 0 0] = zero_vec"
proof -
  let ?V = "[vec_of 3 0 0, vec_of 0 4 0]"
  let ?O = "[vec_of 1 0 0, vec_of (3 / 5) (4 / 5) 0]"
  let ?P = "[vec_of 3 0 0, vec_of 3 0 0, vec_of 0 4 0, vec_of 0 4 0]"
  have sv: "smooth_vectors ?V 2 1 = Inr ?O"
    by (simp add: smooth_eval upt2 numeral_2_eq_2 sqrt9 sqrt_25_4)
  have pad: "np_pad_edge (nat (2 div 2)) ?V = Inr ?P"
    by (simp add: np_pad_edge_def)
  have win: "window ?P (nat 2) 1 = ?V"
    by (simp add: window_def numeral_2_eq_2)
  have bd: "bounded_vec huge (vec_of 3 0 0)" "bounded_vec huge (vec_of 0 4 0)"
    by (simp_all add: vec_of_def huge_def)
  have nm: "vnorm (np_mean ?V) = Some (5 / 2)"
    by (simp add: np_mean_def vsum_def vnorm_def vec_of_def zero_vec_def sqrt_25_4)
  have tn: "tiny \<le> 5 / 2" by (simp add: tiny_def)
  have one: "(1::int) \<le> 1" by simp
  from smooth_vectors_rows_unit [of 2 ?V 1 ?O] sv one obtain prev padded where
    prev: "smooth_vectors ?V 2 (1 - 1) = Inr prev"
    and padded: "np_pad_edge (nat (2 div 2)) prev = Inr padded"
    and rows: "\<forall>i<length ?V.
                ?O ! i = normalize (np_mean (window padded (nat 2) i))
                \<and> (np_mean (window padded (nat 2) i) = zero_vec \<longrightarrow> ?O ! i = nan_vec)
                \<and> ((\<forall>v\<in>set (window padded (nat 2) i). bounded_vec huge v)
                     \<and> (\<exists>s. vnorm (np_mean (window padded (nat 2) i)) = Some s \<and> tiny \<le> s)
                    \<longrightarrow> unit_vec (?O ! i))"
    by blast
  from prev have "prev = ?V" by (simp add: smooth_vectors_def)
  with padded pad have eqP: "padded = ?P" by simp
  have i1: "(1::nat) < length ?V" by simp
  from rows i1 have imp: "(\<forall>v\<in>set (window padded (nat 2) 1). bounded_vec huge v)
                     \<and> (\<exists>s. vnorm (np_mean (window padded (nat 2) 1)) = Some s \<and> tiny \<le> s)
                    \<longrightarrow> unit_vec (?O ! 1)"
    by blast
  have h1: "\<forall>v\<in>set (window padded (nat 2) 1). bounded_vec huge v"
    unfolding eqP win using bd by simp
  have h2: "\<exists>s. vnorm (np_mean (window padded (nat 2) 1)) = Some s \<and> tiny \<le> s"
    unfolding eqP win using nm tn by blast
  from imp h1 h2 have "unit_vec (?O ! 1)" by blast
  then have u: "unit_vec (vec_of (3 / 5) (4 / 5) 0)" by simp
  have sz: "smooth_vectors [vec_of 1 0 0, vec_of (- 1) 0 0] 2 1 = Inr [vec_of 1 0 0, nan_vec]"
    by (simp add: smooth_eval upt2 numeral_2_eq_2)
  have mz: "np_mean [vec_of 1 0 0, vec_of (- 1) 0 0] = zero_vec"
    by (simp add: np_mean_def vsum_def vec_of_def zero_vec_def)
  show ?thesis
    using sv pad win bd nm tn u sz mz by simp
qed

text \<open>
  The claim as stated, every output vector of unit length, fails on two opposite
  vectors with the default window and one pass: the second window mean is zero and the
  row comes out as \<^verbatim>\<open>nan\<close>.
\<close>

theorem smooth_vectors_nan_counterexample:
  "smooth_vectors [vec_of 1 0 0, vec_of (- 1) 0 0] 10 1 = Inr [vec_of 1 0 0, nan_vec]
   \<and> \<not> unit_vec nan_vec"
  by (simp add: smooth_eval unit_vec_def upt2 eval_nat_numeral real_sqrt_divide sqrt25)

section \<open>Orthonormality of the propagated frames\<close>

























section \<open>Properties of interpolate_line\<close>

lemma linear_interp_knots_Cons:
  "sorted_wrt (<) (x0 # xs) \<Longrightarrow> length ys = length xs \<Longrightarrow> xs \<noteq> [] \<Longrightarrow> i \<le> length xs
   \<Longrightarrow> linear_interp (x0 # xs) (y0 # ys) ((x0 # xs) ! i) = (y0 # ys) ! i"
proof (induction xs arbitrary: x0 y0 ys i)
  case Nil
  then show ?case by simp
next
  case (Cons x1 xs)
  from Cons.prems(2) obtain y1 ys' where ys: "ys = y1 # ys'" and len: "length ys' = length xs"
    by (cases ys) simp_all
  from Cons.prems(1) have lt: "x0 < x1" by simp
  show ?case
  proof (cases i)
    case 0
    then show ?thesis using lt ys by simp
  next
    case (Suc j)
    note i = this
    show ?thesis
    proof (cases j)
      case 0
      with i lt ys show ?thesis by (simp add: field_simps)
    next
      case (Suc k)
      with i Cons.prems(4) have k: "k < length xs" by simp
      then have xne: "xs \<noteq> []" by auto
      from Cons.prems(1) k have gt: "x1 < xs ! k" by simp
      have sorted: "sorted_wrt (<) (x1 # xs)" using Cons.prems(1) by simp
      have jle: "j \<le> length xs" using Suc k by simp
      have IH: "linear_interp (x1 # xs) (y1 # ys') ((x1 # xs) ! j) = (y1 # ys') ! j"
        using sorted len xne jle by (rule Cons.IH)
      have t: "(x0 # x1 # xs) ! i = xs ! k" using i Suc by simp
      have "linear_interp (x0 # x1 # xs) (y0 # y1 # ys') (xs ! k)
          = linear_interp (x1 # xs) (y1 # ys') (xs ! k)"
        using gt xne by simp
      with IH show ?thesis
        using t i Suc ys by simp
    qed
  qed
qed

lemma interpolates_linear_interp: "interpolates linear_interp"
proof -
  have "linear_interp xs ys (xs ! i) = ys ! i"
    if "2 \<le> length xs" "sorted_wrt (<) xs" "length ys = length xs" "i < length xs"
    for xs ys i
  proof -
    from that(1) obtain x0 xs' where xs: "xs = x0 # xs'" and ne: "xs' \<noteq> []"
      by (cases xs; cases "tl xs") auto
    from that(3) xs obtain y0 ys' where ys: "ys = y0 # ys'" and len: "length ys' = length xs'"
      by (cases ys) simp_all
    from that(4) xs have "i \<le> length xs'" by simp
    with that(2) len ne show ?thesis
      unfolding xs ys by (intro linear_interp_knots_Cons)
  qed
  then show ?thesis unfolding interpolates_def by blast
qed


lemma cumsum_from_reals:
  "\<exists>cs. cumsum_from (Some a) (map Some rs) = map Some cs \<and> length cs = length rs
     \<and> (\<forall>k<length rs. cs ! k = (a # cs) ! k + rs ! k)"
proof (induction rs arbitrary: a)
  case Nil
  then show ?case by simp
next
  case (Cons r rs)
  from Cons.IH [of "a + r"] obtain cs where
    cs: "cumsum_from (Some (a + r)) (map Some rs) = map Some cs" "length cs = length rs"
      "\<forall>k<length rs. cs ! k = ((a + r) # cs) ! k + rs ! k"
    by blast
  have "\<forall>k<length (r # rs). ((a + r) # cs) ! k = (a # (a + r) # cs) ! k + (r # rs) ! k"
  proof (intro allI impI)
    fix k assume "k < length (r # rs)"
    then show "((a + r) # cs) ! k = (a # (a + r) # cs) ! k + (r # rs) ! k"
      using cs(3) by (cases k) simp_all
  qed
  with cs(1,2) show ?case
    by (intro exI [of _ "(a + r) # cs"]) simp
qed

lemma vnorm_vsub_finite:
  assumes "finite_vec p" and "finite_vec q"
  shows "\<exists>r. vnorm (vsub q p) = Some r \<and> 0 \<le> r \<and> (r = 0 \<longleftrightarrow> p = q)"
proof -
  from assms(1) obtain a b c where p: "p = (Some a, Some b, Some c)" by (rule finite_vecE)
  from assms(2) obtain d e f where q: "q = (Some d, Some e, Some f)" by (rule finite_vecE)
  let ?s = "(d - a) * (d - a) + (e - b) * (e - b) + (f - c) * (f - c)"
  have "vnorm (vsub q p) = Some (sqrt ?s)"
    by (simp add: p q vnorm_finite)
  moreover have "0 \<le> sqrt ?s" by simp
  moreover have "sqrt ?s = 0 \<longleftrightarrow> p = q"
    using sum_squares_zero [of "d - a" "e - b" "f - c"] by (auto simp: p q)
  ultimately show ?thesis by blast
qed

lemma norms_of_diff:
  assumes "\<forall>p\<in>set pts. finite_vec p"
  shows "\<exists>rs. map vnorm (np_diff pts) = map Some rs \<and> length rs = length pts - 1
    \<and> (\<forall>k<length rs. 0 \<le> rs ! k \<and> (rs ! k = 0 \<longleftrightarrow> pts ! k = pts ! Suc k))"
proof -
  define rs where "rs = map (\<lambda>v. the (vnorm v)) (np_diff pts)"
  have len: "length rs = length pts - 1" by (simp add: rs_def length_np_diff)
  have row: "vnorm (np_diff pts ! k) = Some (rs ! k) \<and> 0 \<le> rs ! k
      \<and> (rs ! k = 0 \<longleftrightarrow> pts ! k = pts ! Suc k)" if "k < length rs" for k
  proof -
    from that len have k: "k + 1 < length pts" by simp
    then have "pts ! k \<in> set pts" "pts ! (k + 1) \<in> set pts" by simp_all
    with assms have "finite_vec (pts ! k)" "finite_vec (pts ! (k + 1))" by blast+
    from vnorm_vsub_finite [OF this] obtain r where
      "vnorm (vsub (pts ! (k + 1)) (pts ! k)) = Some r" "0 \<le> r" "r = 0 \<longleftrightarrow> pts ! k = pts ! (k + 1)"
      by blast
    moreover have "np_diff pts ! k = vsub (pts ! (k + 1)) (pts ! k)"
      using k by (rule nth_np_diff)
    moreover have "rs ! k = the (vnorm (np_diff pts ! k))"
      using that by (simp add: rs_def)
    ultimately show ?thesis by simp
  qed
  have "map vnorm (np_diff pts) = map Some rs"
    by (rule nth_equalityI) (use row in \<open>simp_all add: rs_def\<close>)
  with len row show ?thesis by blast
qed

lemma distance_reals:
  assumes "\<forall>p\<in>set pts. finite_vec p"
  shows "\<exists>D. distance pts = map Some D \<and> length D = Suc (length pts - 1) \<and> D ! 0 = 0
    \<and> (\<forall>k. Suc k < length D \<longrightarrow>
          D ! k \<le> D ! Suc k \<and> (D ! Suc k = D ! k \<longleftrightarrow> pts ! k = pts ! Suc k))"
proof -
  from norms_of_diff [OF assms] obtain rs where
    rs: "map vnorm (np_diff pts) = map Some rs" "length rs = length pts - 1"
      "\<forall>k<length rs. 0 \<le> rs ! k \<and> (rs ! k = 0 \<longleftrightarrow> pts ! k = pts ! Suc k)"
    by blast
  from cumsum_from_reals [of 0 rs] obtain cs where
    cs: "cumsum_from (Some 0) (map Some rs) = map Some cs" "length cs = length rs"
      "\<forall>k<length rs. cs ! k = (0 # cs) ! k + rs ! k"
    by blast
  have d: "distance pts = map Some (0 # cs)"
    by (simp add: distance_def np_cumsum_def rs(1) cs(1))
  have step: "(0 # cs) ! k \<le> (0 # cs) ! Suc k
      \<and> ((0 # cs) ! Suc k = (0 # cs) ! k \<longleftrightarrow> pts ! k = pts ! Suc k)"
    if "Suc k < length (0 # cs)" for k
  proof -
    from that cs(2) have k: "k < length rs" by simp
    with cs(3) have "(0 # cs) ! Suc k = (0 # cs) ! k + rs ! k" by simp
    with rs(3) k show ?thesis by auto
  qed
  show ?thesis
    using d cs(2) rs(2) step by (intro exI [of _ "0 # cs"]) simp
qed


lemma strictly_increasing_nth:
  fixes D :: "real list"
  assumes "\<forall>k. Suc k < length D \<longrightarrow> D ! k < D ! Suc k"
  shows "sorted_wrt (<) D"
  using assms by (simp add: sorted_wrt_iff_nth_Suc_transp)

lemma strictly_increasing_last:
  fixes D :: "real list"
  assumes "sorted_wrt (<) D" and "2 \<le> length D"
  shows "D ! 0 < last D"
proof -
  have "D \<noteq> []" using assms(2) by auto
  then have "last D = D ! (length D - 1)" by (rule last_conv_nth)
  moreover have "D ! 0 < D ! (length D - 1)"
    using sorted_wrt_nth_less [OF assms(1), of 0 "length D - 1"] assms(2) by simp
  ultimately show ?thesis by simp
qed

text \<open>The normalized parameter of a curve without coincident neighbours.\<close>

lemma distance_normalized_reals:
  assumes "\<forall>p\<in>set pts. finite_vec p" and "2 \<le> length pts" and "distinct_adjacent pts"
  shows "\<exists>X. distance_normalized pts = map Some X \<and> length X = length pts
    \<and> sorted_wrt (<) X \<and> X ! 0 = 0 \<and> last X = 1"
proof -
  from distance_reals [OF assms(1)] obtain D where
    D: "distance pts = map Some D" "length D = Suc (length pts - 1)" "D ! 0 = 0"
      "\<forall>k. Suc k < length D \<longrightarrow>
          D ! k \<le> D ! Suc k \<and> (D ! Suc k = D ! k \<longleftrightarrow> pts ! k = pts ! Suc k)"
    by blast
  have len: "length D = length pts" using D(2) assms(2) by simp
  have strict: "D ! k < D ! Suc k" if "Suc k < length D" for k
  proof -
    from that len have "k + 1 < length pts" by simp
    with assms(3) have "pts ! k \<noteq> pts ! (k + 1)" by (rule distinct_adjacent_nth)
    then have ne: "pts ! k \<noteq> pts ! Suc k" by simp
    from D(4) that have "D ! k \<le> D ! Suc k"
      and "D ! Suc k = D ! k \<longleftrightarrow> pts ! k = pts ! Suc k" by blast+
    with ne show ?thesis by auto
  qed
  then have sorted: "sorted_wrt (<) D" by (simp add: strictly_increasing_nth)
  have Dne: "D \<noteq> []" using len assms(2) by auto
  have pos: "0 < last D"
    using strictly_increasing_last [OF sorted] len assms(2) D(3) by simp
  define X where "X = map (\<lambda>d. d / last D) D"
  have "last (distance pts) = Some (last D)"
    using Dne by (simp add: D(1) last_map)
  then have dn: "distance_normalized pts = map Some X"
    using pos by (simp add: distance_normalized_def D(1) X_def)
  have "(\<lambda>x y. x / last D < y / last D) = (<)"
    using pos by (simp add: fun_eq_iff divide_less_cancel)
  then have "sorted_wrt (<) X"
    using sorted by (simp add: X_def sorted_wrt_map)
  moreover have "X ! 0 = 0" using Dne D(3) by (simp add: X_def)
  moreover have "last X = 1" using Dne pos by (simp add: X_def last_map)
  moreover have "length X = length pts" by (simp add: X_def len)
  ultimately show ?thesis using dn by blast
qed

lemma CubicSpline_reals:
  assumes "2 \<le> length X" and "sorted_wrt (<) X" and "length Y = length X"
  shows "CubicSpline interp (map Some X) (map Some Y) = Inr (interp X Y)"
  using assms by (simp add: CubicSpline_def comp_def)

lemma finite_coordinates:
  assumes "\<forall>p\<in>set pts. finite_vec p"
  shows "map vx pts = map Some (map (\<lambda>p. the (vx p)) pts)
    \<and> map vy pts = map Some (map (\<lambda>p. the (vy p)) pts)
    \<and> map vz pts = map Some (map (\<lambda>p. the (vz p)) pts)"
proof -
  have "vx p = Some (the (vx p)) \<and> vy p = Some (the (vy p)) \<and> vz p = Some (the (vz p))"
    if "p \<in> set pts" for p
  proof -
    from assms that have "finite_vec p" by blast
    then obtain a b c where "p = (Some a, Some b, Some c)" by (rule finite_vecE)
    then show ?thesis by simp
  qed
  then show ?thesis by simp
qed

lemma vec_of_coordinates: "finite_vec p \<Longrightarrow> vec_of (the (vx p)) (the (vy p)) (the (vz p)) = p"
  by (erule finite_vecE) (simp add: vec_of_def)


lemma interpolate_line_samples:
  assumes "interpolates interp" and "\<forall>p\<in>set pts. finite_vec p" and "2 \<le> length pts"
    and "distinct_adjacent pts" and "np_linspace01 num = Inr ts"
    and "num = (case num_points of None \<Rightarrow> int (length pts) | Some k \<Rightarrow> k)"
  shows "\<exists>X f. distance_normalized pts = map Some X \<and> length X = length pts
    \<and> X ! 0 = 0 \<and> last X = 1
    \<and> interpolate_line interp pts num_points = Inr (map f ts)
    \<and> (\<forall>i<length pts. f (X ! i) = pts ! i)"
proof -
  from distance_normalized_reals [OF assms(2,3,4)] obtain X where
    X: "distance_normalized pts = map Some X" "length X = length pts"
      "sorted_wrt (<) X" "X ! 0 = 0" "last X = 1"
    by blast
  define Yx where "Yx = map (\<lambda>p. the (vx p)) pts"
  define Yy where "Yy = map (\<lambda>p. the (vy p)) pts"
  define Yz where "Yz = map (\<lambda>p. the (vz p)) pts"
  from finite_coordinates [OF assms(2)]
  have co: "map vx pts = map Some Yx" "map vy pts = map Some Yy" "map vz pts = map Some Yz"
    by (simp_all add: Yx_def Yy_def Yz_def)
  have lX: "2 \<le> length X" using X(2) assms(3) by simp
  have lY: "length Yx = length X" "length Yy = length X" "length Yz = length X"
    by (simp_all add: Yx_def Yy_def Yz_def X(2))
  have sp: "CubicSpline interp (map Some X) (map Some Yx) = Inr (interp X Yx)"
    "CubicSpline interp (map Some X) (map Some Yy) = Inr (interp X Yy)"
    "CubicSpline interp (map Some X) (map Some Yz) = Inr (interp X Yz)"
    using lX X(3) lY by (simp_all add: CubicSpline_reals)
  define f where "f = (\<lambda>t. vec_of (interp X Yx t) (interp X Yy t) (interp X Yz t))"
  have il: "interpolate_line interp pts num_points = Inr (map f ts)"
    using assms(5,6) by (simp add: interpolate_line_def X(1) co sp f_def Let_def)
  have knots: "interp X Y (X ! i) = Y ! i" if "length Y = length X" "i < length X" for Y i
    using assms(1) lX X(3) that unfolding interpolates_def by blast
  have at: "f (X ! i) = pts ! i" if "i < length pts" for i
  proof -
    from that X(2) have i: "i < length X" by simp
    have "interp X Yx (X ! i) = Yx ! i" "interp X Yy (X ! i) = Yy ! i"
      "interp X Yz (X ! i) = Yz ! i"
      using knots [of Yx i] knots [of Yy i] knots [of Yz i] lY i by simp_all
    moreover have "finite_vec (pts ! i)" using assms(2) that by simp
    ultimately show ?thesis
      using that by (simp add: f_def Yx_def Yy_def Yz_def vec_of_coordinates)
  qed
  from X(1,2,4,5) il at show ?thesis by blast
qed

subsection \<open>Degenerate requests\<close>

lemma length_cumsum_from: "length (cumsum_from a xs) = length xs"
  by (induction xs arbitrary: a) simp_all

lemma length_distance_normalized: "length (distance_normalized pts) = Suc (length pts - 1)"
  by (simp add: distance_normalized_def distance_def np_cumsum_def length_cumsum_from
      length_np_diff)

lemma interpolate_line_too_short:
  assumes "length pts < 2"
  shows "interpolate_line interp pts num_points = Inl ValueError"
proof -
  have "length (distance_normalized pts) < 2"
    using assms by (simp add: length_distance_normalized)
  then have "CubicSpline interp (distance_normalized pts) (map vx pts) = Inl ValueError"
    by (simp add: CubicSpline_def)
  then show ?thesis by (simp add: interpolate_line_def Let_def)
qed

lemma interpolate_line_coincident:
  assumes "\<forall>p\<in>set pts. finite_vec p" and "i + 1 < length pts" and "pts ! i = pts ! (i + 1)"
  shows "interpolate_line interp pts num_points = Inl ValueError"
proof -
  from distance_reals [OF assms(1)] obtain D where
    D: "distance pts = map Some D" "length D = Suc (length pts - 1)" "D ! 0 = 0"
      "\<forall>k. Suc k < length D \<longrightarrow>
          D ! k \<le> D ! Suc k \<and> (D ! Suc k = D ! k \<longleftrightarrow> pts ! k = pts ! Suc k)"
    by blast
  have iD: "Suc i < length D" using D(2) assms(2) by simp
  with D(4) assms(3) have eq: "D ! Suc i = D ! i" by simp
  have Dne: "D \<noteq> []" using iD by (cases D) simp_all
  have lastd: "last (map Some D) = Some (last D)"
    using Dne by (simp add: last_map)
  have "CubicSpline interp (distance_normalized pts) (map vx pts) = Inl ValueError"
  proof (cases "last D = 0")
    case True
    then have "distance_normalized pts = map (\<lambda>d. None) D"
      by (simp add: distance_normalized_def D(1) lastd)
    then have "None \<in> set (distance_normalized pts)"
      using Dne by (cases D) simp_all
    then show ?thesis by (simp add: CubicSpline_def)
  next
    case False
    define X where "X = map (\<lambda>d. d / last D) D"
    have dn: "distance_normalized pts = map Some X"
      using False by (simp add: distance_normalized_def D(1) lastd X_def)
    have "X ! Suc i = X ! i" using iD eq by (simp add: X_def)
    moreover have "X ! i < X ! Suc i" if "sorted_wrt (<) X"
      using sorted_wrt_nth_less [OF that, of i "Suc i"] iD by (simp add: X_def)
    ultimately have "\<not> sorted_wrt (<) X" by auto
    then show ?thesis by (simp add: CubicSpline_def dn comp_def)
  qed
  then show ?thesis by (simp add: interpolate_line_def Let_def)
qed

lemma CubicSpline_accepts:
  assumes "CubicSpline interp x y = Inr sp"
  shows "2 \<le> length x \<and> length y = length x \<and> None \<notin> set x \<and> None \<notin> set y
    \<and> sorted_wrt (<) (map the x) \<and> sp = interp (map the x) (map the y)"
  using assms by (auto simp: CubicSpline_def split: if_splits)

lemma map_Some_the: "None \<notin> set xs \<Longrightarrow> map Some (map the xs) = xs"
  by (induction xs) auto

lemma distance_first: "\<exists>rest. distance pts = Some 0 # rest"
  by (simp add: distance_def np_cumsum_def)

lemma distance_normalized_first:
  assumes "None \<notin> set (distance_normalized pts)"
  shows "distance_normalized pts ! 0 = Some 0"
proof -
  obtain rest where d: "distance pts = Some 0 # rest" using distance_first by blast
  define L where "L = last (distance pts)"
  have "distance_normalized pts = map (\<lambda>d. fdiv d L) (distance pts)"
    by (simp add: distance_normalized_def L_def)
  then have dn: "distance_normalized pts = fdiv (Some 0) L # map (\<lambda>d. fdiv d L) rest"
    by (simp add: d)
  with assms have "fdiv (Some 0) L \<noteq> None" by auto
  then obtain l where "L = Some l" "l \<noteq> 0"
    by (cases L) (auto split: if_splits)
  then show ?thesis by (simp add: dn)
qed

lemma interpolate_line_accepted:
  assumes "interpolate_line interp pts num_points = Inr out"
  shows "None \<notin> set (distance_normalized pts) \<and> 2 \<le> length (distance_normalized pts)
    \<and> length pts = length (distance_normalized pts)
    \<and> sorted_wrt (<) (map the (distance_normalized pts))
    \<and> (\<forall>p\<in>set pts. finite_vec p)"
proof -
  from assms obtain sx sy sz where
    sx: "CubicSpline interp (distance_normalized pts) (map vx pts) = Inr sx"
    and sy: "CubicSpline interp (distance_normalized pts) (map vy pts) = Inr sy"
    and sz: "CubicSpline interp (distance_normalized pts) (map vz pts) = Inr sz"
    by (auto simp: interpolate_line_def Let_def split: sum.splits)
  note ax = CubicSpline_accepts [OF sx] and ay = CubicSpline_accepts [OF sy]
    and az = CubicSpline_accepts [OF sz]
  have fin: "finite_vec p" if "p \<in> set pts" for p
  proof -
    obtain a b c where p: "p = (a, b, c)" by (cases p)
    from that have "vx p \<in> set (map vx pts)" "vy p \<in> set (map vy pts)" "vz p \<in> set (map vz pts)"
      by simp_all
    with ax ay az have "vx p \<noteq> None" "vy p \<noteq> None" "vz p \<noteq> None" by metis+
    then show ?thesis by (simp add: p)
  qed
  from ax fin show ?thesis by simp
qed

lemma interpolate_line_first_sample:
  assumes "interpolates interp" and "interpolate_line interp pts num_points = Inr out"
  shows "interpolate_line interp pts (Some 1) = Inr [pts ! 0]"
proof -
  define X where "X = map the (distance_normalized pts)"
  from interpolate_line_accepted [OF assms(2)]
  have nn: "None \<notin> set (distance_normalized pts)"
    and lX: "2 \<le> length X" and lp: "length pts = length X"
    and sorted: "sorted_wrt (<) X" and fin: "\<forall>p\<in>set pts. finite_vec p"
    by (simp_all add: X_def)
  have dn: "distance_normalized pts = map Some X"
    by (simp only: X_def map_Some_the [OF nn])
  have "distance_normalized pts ! 0 = Some 0"
    using nn by (rule distance_normalized_first)
  moreover have "0 < length X" using lX by linarith
  ultimately have X0: "X ! 0 = 0" by (simp add: dn)
  define Yx where "Yx = map (\<lambda>p. the (vx p)) pts"
  define Yy where "Yy = map (\<lambda>p. the (vy p)) pts"
  define Yz where "Yz = map (\<lambda>p. the (vz p)) pts"
  from finite_coordinates [OF fin]
  have co: "map vx pts = map Some Yx" "map vy pts = map Some Yy" "map vz pts = map Some Yz"
    by (simp_all add: Yx_def Yy_def Yz_def)
  have lY: "length Yx = length X" "length Yy = length X" "length Yz = length X"
    by (simp_all add: Yx_def Yy_def Yz_def lp)
  have sp: "CubicSpline interp (map Some X) (map Some Yx) = Inr (interp X Yx)"
    "CubicSpline interp (map Some X) (map Some Yy) = Inr (interp X Yy)"
    "CubicSpline interp (map Some X) (map Some Yz) = Inr (interp X Yz)"
    using lX sorted lY by (simp_all add: CubicSpline_reals)
  have il: "interpolate_line interp pts (Some 1)
      = Inr [vec_of (interp X Yx 0) (interp X Yy 0) (interp X Yz 0)]"
    by (simp add: interpolate_line_def dn co sp np_linspace01_def)
  have i0: "0 < length X" using lX by linarith
  have knots: "interp X Y (X ! 0) = Y ! 0" if "length Y = length X" for Y
    using assms(1) lX sorted that i0 unfolding interpolates_def by blast
  have "interp X Yx 0 = Yx ! 0" "interp X Yy 0 = Yy ! 0" "interp X Yz 0 = Yz ! 0"
    using knots [of Yx] knots [of Yy] knots [of Yz] lY X0 by simp_all
  moreover have p0: "0 < length pts" using lp i0 by simp
  moreover have "finite_vec (pts ! 0)" using fin p0 by simp
  ultimately have "vec_of (interp X Yx 0) (interp X Yy 0) (interp X Yz 0) = pts ! 0"
    by (simp add: Yx_def Yy_def Yz_def vec_of_coordinates)
  with il show ?thesis by simp
qed

text \<open>
  C7, amended. interpolate_line has no error of its own. It fails with the ValueError of
  the spline constructor when the input has fewer than two points, and when two
  consecutive points of a finite input coincide (the normalized parameter is then
  \<^verbatim>\<open>nan\<close> or not strictly increasing). It does not reject a requested count of 1:
  on every input that the spline constructor accepts, that is whenever the call returns
  with some count, the call with the count 1 returns one point, the first input point.
\<close>

theorem interpolate_line_rejections:
  "(length pts < 2 \<longrightarrow> interpolate_line interp pts num_points = Inl ValueError)
   \<and> ((\<forall>p\<in>set pts. finite_vec p) \<and> i + 1 < length pts \<and> pts ! i = pts ! (i + 1)
        \<longrightarrow> interpolate_line interp pts num_points = Inl ValueError)
   \<and> (interpolates interp \<and> interpolate_line interp pts num_points = Inr out
        \<longrightarrow> interpolate_line interp pts (Some 1) = Inr [pts ! 0])"
  using interpolate_line_too_short interpolate_line_coincident interpolate_line_first_sample
  by blast

theorem interpolate_line_rejections_witness:
  "length [vec_of 0 0 0] < 2
   \<and> interpolate_line linear_interp [vec_of 0 0 0] None = Inl ValueError
   \<and> finite_vec (vec_of 0 0 0) \<and> finite_vec (vec_of 1 0 0)
   \<and> 0 + 1 < length [vec_of 0 0 0, vec_of 0 0 0, vec_of 1 0 0]
   \<and> [vec_of 0 0 0, vec_of 0 0 0, vec_of 1 0 0] ! 0
       = [vec_of 0 0 0, vec_of 0 0 0, vec_of 1 0 0] ! (0 + 1)
   \<and> interpolate_line linear_interp [vec_of 0 0 0, vec_of 0 0 0, vec_of 1 0 0] None
       = Inl ValueError
   \<and> interpolates linear_interp
   \<and> interpolate_line linear_interp [vec_of 0 0 0, vec_of 1 0 0] None
       = Inr [vec_of 0 0 0, vec_of 1 0 0]
   \<and> interpolate_line linear_interp [vec_of 0 0 0, vec_of 1 0 0] (Some 1)
       = Inr [vec_of 0 0 0]"
proof -
  let ?A = "[vec_of 0 0 0]"
  let ?B = "[vec_of 0 0 0, vec_of 0 0 0, vec_of 1 0 0]"
  let ?C = "[vec_of 0 0 0, vec_of 1 0 0]"
  have finB: "\<forall>p\<in>set ?B. finite_vec p" by (simp add: vec_of_def)
  have dn: "distance_normalized ?C = [Some 0, Some 1]"
    by (simp add: distance_normalized_def distance_def np_cumsum_def np_diff_def vnorm_def
        vec_of_def)
  have n: "interpolate_line linear_interp ?C None = Inr ?C"
    by (simp add: interpolate_line_def dn CubicSpline_def np_linspace01_def upt2)
       (simp add: vec_of_def)
  have a: "interpolate_line linear_interp ?A None = Inl ValueError"
    using interpolate_line_rejections [of ?A linear_interp None 0] by simp
  have b: "interpolate_line linear_interp ?B None = Inl ValueError"
    using interpolate_line_rejections [of ?B linear_interp None 0] finB by simp
  have c: "interpolate_line linear_interp ?C (Some 1) = Inr [vec_of 0 0 0]"
    using interpolate_line_rejections [of ?C linear_interp None 0 ?C]
      interpolates_linear_interp n by simp
  show ?thesis
    using a b c n interpolates_linear_interp finB by simp
qed

text \<open>
  The claim as stated fails for the requested count 1, which is accepted: one point
  comes back.
\<close>

theorem interpolate_line_one_point_counterexample:
  "interpolate_line linear_interp [vec_of 0 0 0, vec_of 1 0 0] (Some 1) = Inr [vec_of 0 0 0]"
proof -
  have dn: "distance_normalized [vec_of 0 0 0, vec_of 1 0 0] = [Some 0, Some 1]"
    by (simp add: distance_normalized_def distance_def np_cumsum_def np_diff_def vnorm_def
        vec_of_def)
  show ?thesis
    by (simp add: interpolate_line_def dn CubicSpline_def np_linspace01_def)
       (simp add: vec_of_def)
qed


section \<open>The straight segment\<close>

lemma np_mean_replicate_10:
  "np_mean (replicate 10 (Some a, Some b, Some c)) = (Some a, Some b, Some c)"
  by (simp add: np_mean_def vsum_def zero_vec_def eval_nat_numeral)

lemma normalize_unit: "unit_vec u \<Longrightarrow> normalize u = u"
  by (erule unit_vecE) (simp add: normalize_def vnorm_finite)

lemma smooth_constant:
  assumes "0 < n" and "unit_vec u"
  shows "smooth_vectors_default (replicate n u) = Inr (replicate n u)"
proof -
  from assms(2) obtain a b c where u: "u = (Some a, Some b, Some c)" by (rule unit_vecE)
  have ne: "replicate n u \<noteq> []" using assms(1) by simp
  have pad: "spec_pad 5 (replicate n u) = replicate (n + 10) u"
    using assms(1) by (simp add: spec_pad_def replicate_add [symmetric])
  have win: "take 10 (drop i (replicate (n + 10) u)) = replicate 10 u" if "i < n" for i
    using that by (simp add: min_def)
  have mean: "np_mean (replicate 10 u) = u"
    unfolding u by (rule np_mean_replicate_10)
  have "spec_pass 10 (replicate n u) = map (\<lambda>i. u) [0..<n]"
    unfolding spec_pass_model
    using assms(2) by (simp add: pad win mean normalize_unit)
  also have "\<dots> = replicate n u" by (simp add: map_replicate_const)
  finally have sp: "spec_pass 10 (replicate n u) = replicate n u" .
  have "(0::int) \<le> 10" by simp
  from smooth_pass_spec [OF this ne] have "smooth_pass 10 (replicate n u) = Inr (replicate n u)"
    by (simp add: sp)
  then show ?thesis
    by (simp add: smooth_vectors_default_def smooth_vectors_def)
qed

lemma mrf_frames_straight:
  assumes "0 < n"
  shows "mrf_frames (replicate n (vec_of 1 0 0))
    = Inr (replicate n (vec_of 0 (- 1) 0), replicate n (vec_of 0 0 (- 1)))"
proof -
  let ?t = "vec_of 1 0 0"
  let ?ts = "replicate n ?t"
  have ne: "?ts \<noteq> []" using assms by simp
  from mrf_frames_rows [OF ne] obtain ns bs where
    mf: "mrf_frames ?ts = Inr (ns, bs)"
    and len: "length ns = n" "length bs = n"
    and n0: "ns ! 0 = normalize (first_normal (?ts ! 0))"
    and b0: "bs ! 0 = cross (?ts ! 0) (ns ! 0)"
    and rec: "\<forall>i. 1 \<le> i \<and> i < length ?ts \<longrightarrow>
          ns ! i = normalize (vsub (ns ! (i - 1))
                      (smul (dot (ns ! (i - 1)) (?ts ! i)) (?ts ! i)))
          \<and> bs ! i = cross (?ts ! i) (ns ! i)"
    by auto
  have nrow: "ns ! i = vec_of 0 (- 1) 0" if "i < n" for i
    using that
  proof (induction i)
    case 0
    then show ?case
      using n0 by (simp add: first_normal_def normalize_def vnorm_def vec_of_def)
  next
    case (Suc i)
    then have "ns ! i = vec_of 0 (- 1) 0" by simp
    moreover from rec Suc.prems have "ns ! Suc i = normalize (vsub (ns ! i)
                      (smul (dot (ns ! i) (?ts ! Suc i)) (?ts ! Suc i)))"
      by simp
    ultimately show ?case
      using Suc.prems by (simp add: normalize_def vnorm_def vec_of_def)
  qed
  have brow: "bs ! i = vec_of 0 0 (- 1)" if "i < n" for i
  proof (cases i)
    case 0
    with b0 nrow [OF that] that show ?thesis by (simp add: vec_of_def)
  next
    case (Suc j)
    with rec that have "bs ! i = cross (?ts ! i) (ns ! i)" by simp
    with nrow [OF that] that show ?thesis by (simp add: vec_of_def)
  qed
  have "ns = replicate n (vec_of 0 (- 1) 0)"
    by (rule nth_equalityI) (simp_all add: len nrow)
  moreover have "bs = replicate n (vec_of 0 0 (- 1))"
    by (rule nth_equalityI) (simp_all add: len brow)
  ultimately show ?thesis using mf by simp
qed

lemma compute_MRF_straight:
  assumes "0 < n"
  shows "compute_MRF (replicate n (vec_of 1 0 0))
    = Inr (replicate n (vec_of 0 (- 1) 0), replicate n (vec_of 0 0 (- 1)))"
proof -
  have "unit_vec (vec_of 0 (- 1) 0)" "unit_vec (vec_of 0 0 (- 1))"
    by (simp_all add: unit_vec_def vnorm_def vec_of_def)
  then show ?thesis
    using assms by (simp add: compute_MRF_def mrf_frames_straight smooth_constant)
qed


lemma interpolate_line_at_knots:
  assumes "interpolates interp" and "\<forall>p\<in>set pts. finite_vec p" and "2 \<le> length pts"
    and "distinct_adjacent pts" and "np_linspace01 (int (length pts)) = Inr ts"
    and "distance_normalized pts = map Some ts"
  shows "interpolate_line interp pts None = Inr pts"
proof -
  have "int (length pts) = (case None of None \<Rightarrow> int (length pts) | Some k \<Rightarrow> k)" by simp
  from interpolate_line_samples [OF assms(1,2,3,4,5) this] obtain X :: "real list" and f where
    X: "distance_normalized pts = map Some X" "length X = length pts"
    and f: "interpolate_line interp pts None = Inr (map f ts)"
      "\<forall>i<length pts. f (X ! i) = pts ! i"
    by blast
  from X(1) assms(6) have "map Some X = map Some ts" by simp
  then have "X = ts" by simp
  with X(2) f(2) have "map f ts = pts"
    by (intro nth_equalityI) simp_all
  with f(1) show ?thesis by simp
qed

lemma upt11: "[0..<11] = [0, 1, 2, 3, 4, 5, 6, 7, 8, 9, 10]"
  by (simp add: upt_rec)

lemma straight_line_11_points:
  "straight_line_11 = [vec_of 0 0 0, vec_of 1 0 0, vec_of 2 0 0, vec_of 3 0 0, vec_of 4 0 0,
     vec_of 5 0 0, vec_of 6 0 0, vec_of 7 0 0, vec_of 8 0 0, vec_of 9 0 0, vec_of 10 0 0]"
  by (simp add: straight_line_11_def upt11)

lemma np_diff_straight_line_11: "np_diff straight_line_11 = replicate 10 (vec_of 1 0 0)"
  by (simp add: straight_line_11_points np_diff_def vec_of_def eval_nat_numeral)

lemma interpolate_straight_line_11:
  assumes "interpolates interp"
  shows "interpolate_line interp straight_line_11 None = Inr straight_line_11"
proof -
  let ?ts = "map (\<lambda>i. real i * (1 / 10)) [0..<11]"
  have fin: "\<forall>p\<in>set straight_line_11. finite_vec p"
    by (simp add: straight_line_11_def vec_of_def)
  have len: "2 \<le> length straight_line_11" by (simp add: straight_line_11_def)
  have dist: "distinct_adjacent straight_line_11"
    by (simp add: straight_line_11_points vec_of_def)
  have ls: "np_linspace01 (int (length straight_line_11)) = Inr ?ts"
    by (simp add: straight_line_11_def np_linspace01_def)
  have dn: "distance_normalized straight_line_11 = map Some ?ts"
    by (simp add: distance_normalized_def distance_def np_cumsum_def np_diff_straight_line_11
        vnorm_def vec_of_def upt11 eval_nat_numeral)
  from assms fin len dist ls dn show ?thesis by (rule interpolate_line_at_knots)
qed

lemma tangents_straight_line_11:
  "compute_tangent_vectors straight_line_11 = Inr (replicate 11 (vec_of 1 0 0))"
proof -
  have "normalized_tangents straight_line_11 = Inr (replicate 11 (vec_of 1 0 0))"
    by (simp add: normalized_tangents_def tangent_differences_def np_diff_straight_line_11
        normalize_rows_def normalize_def vnorm_def vec_of_def eval_nat_numeral)
  moreover have "unit_vec (vec_of 1 0 0)"
    by (simp add: unit_vec_def vnorm_def vec_of_def)
  ultimately show ?thesis
    by (simp add: compute_tangent_vectors_def smooth_constant)
qed

text \<open>
  C9. On the 11 points evenly spaced on the segment from \<open>(0,0,0)\<close> to \<open>(10,0,0)\<close>,
  the pipeline of resampling, tangent estimation and frame propagation returns the 11
  points themselves, tangents all equal to \<open>(1,0,0)\<close>, normals all equal to
  \<open>(0,-1,0)\<close> and binormals all equal to \<open>(0,0,-1)\<close>: constant along the curve and
  orthogonal to the tangent. The spline is any interpolant through its knots.
\<close>

theorem straight_line_frames:
  assumes "interpolates interp"
  shows "frames_of_line interp straight_line_11
      = Inr (straight_line_11, replicate 11 (vec_of 1 0 0), replicate 11 (vec_of 0 (- 1) 0),
             replicate 11 (vec_of 0 0 (- 1)))
    \<and> dot (vec_of 1 0 0) (vec_of 0 (- 1) 0) = Some 0
    \<and> dot (vec_of 1 0 0) (vec_of 0 0 (- 1)) = Some 0
    \<and> length straight_line_11 = 11
    \<and> straight_line_11 ! 0 = vec_of 0 0 0 \<and> straight_line_11 ! 10 = vec_of 10 0 0"
proof -
  have "frames_of_line interp straight_line_11
      = Inr (straight_line_11, replicate 11 (vec_of 1 0 0), replicate 11 (vec_of 0 (- 1) 0),
             replicate 11 (vec_of 0 0 (- 1)))"
    by (simp add: frames_of_line_def interpolate_straight_line_11 [OF assms]
        tangents_straight_line_11 compute_MRF_straight)
  moreover have "dot (vec_of 1 0 0) (vec_of 0 (- 1) 0) = Some 0"
    "dot (vec_of 1 0 0) (vec_of 0 0 (- 1)) = Some 0"
    by (simp_all add: vec_of_def)
  moreover have "length straight_line_11 = 11"
    "straight_line_11 ! 0 = vec_of 0 0 0" "straight_line_11 ! 10 = vec_of 10 0 0"
    by (simp_all add: straight_line_11_points)
  ultimately show ?thesis by simp
qed

theorem straight_line_frames_witness:
  "interpolates linear_interp
   \<and> frames_of_line linear_interp straight_line_11
      = Inr (straight_line_11, replicate 11 (vec_of 1 0 0), replicate 11 (vec_of 0 (- 1) 0),
             replicate 11 (vec_of 0 0 (- 1)))"
  using straight_line_frames [OF interpolates_linear_interp] interpolates_linear_interp
  by simp


end
